theory Spec2Isabelle
  imports Main "HOL-Library.Sublist"
begin

section \<open>Observable behaviour of the ut181a command line tool\<close>

text \<open>
  The program of \<^verbatim>\<open>src/main.cpp\<close> writes to the two output streams, installs a
  signal handler and calls the five operations of \<^verbatim>\<open>UT181A::Device\<close>. Each of these
  is an event; a run of the program is the list of its events, in the order the code
  performs them, together with the value \<^verbatim>\<open>main\<close> returns.

  The diagnostics that \<^verbatim>\<open>getopt_long\<close> itself prints on the error stream are
  events of their own kind: their text is chosen by the C library and its locale.
\<close>

datatype getopt_diag =
    InvalidOption char
  | MissingArgument char
  | AmbiguousOption string
  | UnrecognizedOption string
  | ArgumentNotAllowed string
  | LongMissingArgument string

datatype event =
    Stdout string
  | Stderr string
  | GetoptError getopt_diag
  | SignalInstall
  | DevOpen "string option"
  | DevClose
  | DevMonitor
  | DevListRecord
  | DevReceiveRecord int

text \<open>
  What the program cannot decide by itself is given by its environment:
  whether \<^verbatim>\<open>POSIXLY_CORRECT\<close> is set (it changes how \<^verbatim>\<open>getopt_long\<close> treats
  positional arguments), the initial value of the global \<^verbatim>\<open>g_debug\<close> (declared in
  \<^verbatim>\<open>debug.h\<close>), the results of \<^verbatim>\<open>Device::Open\<close> and \<^verbatim>\<open>Device::Monitor\<close>, and
  the value of \<^verbatim>\<open>quit_flag\<close> that the download loop reads at the test of its
  iteration \<open>i\<close>. The flag is written by \<^verbatim>\<open>SignalHandler\<close>, which may run at any
  moment; the sequence of the values read is all the loop ever sees of it.
  Every call into the Device layer is taken to return.
\<close>

record env =
  posixly_correct :: bool
  g_debug_init :: int
  open_result :: "string option \<Rightarrow> bool"
  monitor_result :: bool
  quit_flag_at :: "nat \<Rightarrow> int"


section \<open>The C library: \<^verbatim>\<open>getopt_long\<close>, \<^verbatim>\<open>atoi\<close> and \<^verbatim>\<open>printf("%d")\<close>\<close>

subsection \<open>Option tables\<close>

datatype has_arg_t = no_argument | required_argument | optional_argument

text \<open>
  A row of \<^verbatim>\<open>struct option\<close>. The field \<^verbatim>\<open>flag\<close> is 0 in every row of the program's
  table, so \<^verbatim>\<open>getopt_long\<close> returns \<^verbatim>\<open>val\<close> for a long option; the field is left out.
\<close>

record long_option =
  name :: string
  has_arg :: has_arg_t
  val :: char

text \<open>
  \<^verbatim>\<open>strchr(optstring, c)\<close> and the colons that follow the character found.
  The characters \<^verbatim>\<open>:\<close> and \<^verbatim>\<open>;\<close> are never options.
\<close>

fun short_spec :: "string \<Rightarrow> char \<Rightarrow> has_arg_t option" where
  "short_spec [] c = None"
| "short_spec (x # xs) c =
     (if x = c then
        (if c = CHR '':'' \<or> c = CHR '';'' then None
         else Some (case xs of
                      y # z # _ \<Rightarrow> if y = CHR '':'' \<and> z = CHR '':'' then optional_argument
                                   else if y = CHR '':'' then required_argument
                                   else no_argument
                    | [y] \<Rightarrow> if y = CHR '':'' then required_argument else no_argument
                    | [] \<Rightarrow> no_argument))
      else short_spec xs c)"

text \<open>
  The search of \<^verbatim>\<open>process_long_option\<close>: an exact match wins; otherwise the rows of
  which the given name is a prefix are the candidates, the first of them is taken, and
  a later candidate that differs from it in \<^verbatim>\<open>has_arg\<close> or \<^verbatim>\<open>val\<close> makes the name
  ambiguous.
\<close>

datatype long_lookup = NotFound | Ambiguous | Found nat long_option

fun exact_match :: "long_option list \<Rightarrow> string \<Rightarrow> nat \<Rightarrow> (nat \<times> long_option) option" where
  "exact_match [] nm i = None"
| "exact_match (p # ps) nm i = (if name p = nm then Some (i, p) else exact_match ps nm (Suc i))"

fun abbrev_matches :: "long_option list \<Rightarrow> string \<Rightarrow> nat \<Rightarrow> (nat \<times> long_option) list" where
  "abbrev_matches [] nm i = []"
| "abbrev_matches (p # ps) nm i =
     (if take (length nm) (name p) = nm then (i, p) # abbrev_matches ps nm (Suc i)
      else abbrev_matches ps nm (Suc i))"

definition find_long :: "long_option list \<Rightarrow> string \<Rightarrow> long_lookup" where
  "find_long longopts nm =
     (case exact_match longopts nm 0 of
        Some (i, p) \<Rightarrow> Found i p
      | None \<Rightarrow>
          (case abbrev_matches longopts nm 0 of
             [] \<Rightarrow> NotFound
           | (i, p) # others \<Rightarrow>
               if list_ex (\<lambda>(j, q). has_arg q \<noteq> has_arg p \<or> val q \<noteq> val p) others
               then Ambiguous else Found i p))"

subsection \<open>One call of \<^verbatim>\<open>getopt_long\<close>\<close>

text \<open>
  The scanner's state between two calls (glibc's \<^verbatim>\<open>struct _getopt_data\<close>):
  \<^item> \<open>args\<close> is \<^verbatim>\<open>argv[optind .. argc)\<close>, the elements not yet looked at;
  \<^item> \<open>nextchar\<close> is the rest of the cluster of short options being read
    (\<^verbatim>\<open>-ml\<close> is \<^verbatim>\<open>-m -l\<close>), empty between elements;
  \<^item> \<open>nonopts\<close> are the positional arguments passed over so far, which glibc keeps
    in \<^verbatim>\<open>argv[first_nonopt .. last_nonopt)\<close> and moves behind the options, keeping
    their order.
  When the scan ends (\<^verbatim>\<open>-1\<close>), \<^verbatim>\<open>optind\<close> is left at the first positional argument,
  so \<open>args\<close> of the final state is the list of all of them.
\<close>

record getopt_data =
  args :: "string list"
  nextchar :: string
  nonopts :: "string list"

text \<open>
  The value returned: \<^verbatim>\<open>-1\<close>, or an option character with \<^verbatim>\<open>optarg\<close> and, for a
  long option, the index stored through \<^verbatim>\<open>longind\<close>.
\<close>

datatype getopt_ret = End | Ret char "string option" "nat option"

type_synonym getopt_out = "getopt_diag list \<times> getopt_ret \<times> getopt_data"

definition NONOPTION_P :: "string \<Rightarrow> bool" where
  "NONOPTION_P a = (case a of [] \<Rightarrow> True | c # cs \<Rightarrow> c \<noteq> CHR ''-'' \<or> cs = [])"

definition process_long_option ::
  "long_option list \<Rightarrow> string \<Rightarrow> string list \<Rightarrow> string list \<Rightarrow> getopt_out" where
  "process_long_option longopts body as nops =
     (let nm = takeWhile (\<lambda>c. c \<noteq> CHR ''='') body;
          st = \<lparr>args = as, nextchar = [], nonopts = nops\<rparr>
      in case find_long longopts nm of
           Ambiguous \<Rightarrow> ([AmbiguousOption body], Ret (CHR ''?'') None None, st)
         | NotFound \<Rightarrow> ([UnrecognizedOption body], Ret (CHR ''?'') None None, st)
         | Found i p \<Rightarrow>
             if length nm < length body then
               (if has_arg p \<noteq> no_argument
                then ([], Ret (val p) (Some (drop (Suc (length nm)) body)) (Some i), st)
                else ([ArgumentNotAllowed (name p)], Ret (CHR ''?'') None None, st))
             else if has_arg p = required_argument then
               (case as of
                  a # as' \<Rightarrow> ([], Ret (val p) (Some a) (Some i), st\<lparr>args := as'\<rparr>)
                | [] \<Rightarrow> ([LongMissingArgument (name p)], Ret (CHR ''?'') None None, st))
             else ([], Ret (val p) None (Some i), st))"

definition short_option ::
  "string \<Rightarrow> char \<Rightarrow> string \<Rightarrow> string list \<Rightarrow> string list \<Rightarrow> getopt_out" where
  "short_option optstring c cs as nops =
     (case short_spec optstring c of
        None \<Rightarrow>
          ([InvalidOption c], Ret (CHR ''?'') None None,
           \<lparr>args = as, nextchar = cs, nonopts = nops\<rparr>)
      | Some no_argument \<Rightarrow>
          ([], Ret c None None, \<lparr>args = as, nextchar = cs, nonopts = nops\<rparr>)
      | Some optional_argument \<Rightarrow>
          ([], Ret c (if cs = [] then None else Some cs) None,
           \<lparr>args = as, nextchar = [], nonopts = nops\<rparr>)
      | Some required_argument \<Rightarrow>
          if cs \<noteq> [] then
            ([], Ret c (Some cs) None, \<lparr>args = as, nextchar = [], nonopts = nops\<rparr>)
          else
            (case as of
               [] \<Rightarrow> ([MissingArgument c], Ret (CHR ''?'') None None,
                      \<lparr>args = [], nextchar = [], nonopts = nops\<rparr>)
             | a # as' \<Rightarrow> ([], Ret c (Some a) None,
                          \<lparr>args = as', nextchar = [], nonopts = nops\<rparr>)))"

text \<open>
  The next element of \<^verbatim>\<open>argv\<close>, when no cluster of short options is being read:
  \<open>rest\<close> is what is left of \<^verbatim>\<open>argv\<close> and \<open>nops\<close> are the positional arguments passed
  over. The element \<^verbatim>\<open>--\<close> ends the options; a positional argument here (only when
  they are not passed over) ends the scan; \<^verbatim>\<open>--name\<close> is a long option, anything else
  that starts with \<^verbatim>\<open>-\<close> a cluster of short options. (An element that is not
  positional has a second character, so the last case is never taken.)
\<close>

definition next_element ::
  "string \<Rightarrow> long_option list \<Rightarrow> string list \<Rightarrow> string list \<Rightarrow> getopt_out" where
  "next_element optstring longopts nops rest =
     (case rest of
        [] \<Rightarrow> ([], End, \<lparr>args = nops, nextchar = [], nonopts = []\<rparr>)
      | a # as \<Rightarrow>
          if a = ''--'' then
            ([], End, \<lparr>args = nops @ as, nextchar = [], nonopts = []\<rparr>)
          else if NONOPTION_P a then
            ([], End, \<lparr>args = nops @ a # as, nextchar = [], nonopts = []\<rparr>)
          else
            (case tl a of
               c # cs \<Rightarrow>
                 if c = CHR ''-'' then process_long_option longopts cs as nops
                 else short_option optstring c cs as nops
             | [] \<Rightarrow> ([], End, \<lparr>args = nops @ a # as, nextchar = [], nonopts = []\<rparr>)))"

text \<open>
  \<^verbatim>\<open>getopt_long\<close> of glibc, for an option string without a leading \<^verbatim>\<open>+\<close>, \<^verbatim>\<open>-\<close> or
  \<^verbatim>\<open>:\<close> and without \<^verbatim>\<open>W;\<close>, with \<^verbatim>\<open>opterr\<close> at its default 1. The first argument
  says whether \<^verbatim>\<open>POSIXLY_CORRECT\<close> is set: then the scan stops at the first positional
  argument; otherwise positional arguments are passed over and collected.
\<close>

definition getopt_long ::
  "bool \<Rightarrow> string \<Rightarrow> long_option list \<Rightarrow> getopt_data \<Rightarrow> getopt_out" where
  "getopt_long posix optstring longopts d =
     (case nextchar d of
        c # cs \<Rightarrow> short_option optstring c cs (args d) (nonopts d)
      | [] \<Rightarrow>
          if posix then next_element optstring longopts (nonopts d) (args d)
          else next_element optstring longopts
                 (nonopts d @ takeWhile NONOPTION_P (args d))
                 (dropWhile NONOPTION_P (args d)))"

text \<open>What is left to scan: every call that returns an option makes it smaller.\<close>

definition remaining :: "getopt_data \<Rightarrow> nat" where
  "remaining d = sum_list (map (\<lambda>a. Suc (length a)) (args d)) + length (nextchar d)"


subsection \<open>\<^verbatim>\<open>atoi\<close> and \<^verbatim>\<open>%d\<close>\<close>

text \<open>
  \<^verbatim>\<open>atoi(s)\<close> of glibc is \<^verbatim>\<open>(int) strtol(s, NULL, 10)\<close>: white space is skipped, one
  sign is read, then decimal digits as long as there are any; no digit at all gives 0.
  \<^verbatim>\<open>strtol\<close> clamps to the range of \<^verbatim>\<open>long\<close> (64 bits on the LP64 targets of the
  tool) and the conversion to \<^verbatim>\<open>int\<close> keeps the low 32 bits.
\<close>

definition isspace :: "char \<Rightarrow> bool" where
  "isspace c = (c = CHR '' '' \<or> c = CHR 0x09 \<or> c = CHR 0x0A \<or> c = CHR 0x0B
                \<or> c = CHR 0x0C \<or> c = CHR 0x0D)"

definition isdigit :: "char \<Rightarrow> bool" where
  "isdigit c = (48 \<le> (of_char c :: nat) \<and> (of_char c :: nat) \<le> 57)"

fun digits_value :: "nat \<Rightarrow> string \<Rightarrow> nat" where
  "digits_value acc [] = acc"
| "digits_value acc (c # cs) =
     (if isdigit c then digits_value (10 * acc + (of_char c - 48)) cs else acc)"

definition LONG_MAX :: int where "LONG_MAX = 2 ^ 63 - 1"
definition LONG_MIN :: int where "LONG_MIN = - (2 ^ 63)"

definition strtol :: "string \<Rightarrow> int" where
  "strtol s =
     (let s1 = dropWhile isspace s;
          neg = (case s1 of c # cs \<Rightarrow> c = CHR ''-'' | [] \<Rightarrow> False);
          s2 = (case s1 of c # cs \<Rightarrow> if c = CHR ''-'' \<or> c = CHR ''+'' then cs else s1
                | [] \<Rightarrow> []);
          n = int (digits_value 0 s2);
          v = (if neg then - n else n)
      in max LONG_MIN (min LONG_MAX v))"

definition int_of_long :: "int \<Rightarrow> int" where
  "int_of_long v = (v + 2 ^ 31) mod 2 ^ 32 - 2 ^ 31"

definition atoi :: "string \<Rightarrow> int" where
  "atoi s = int_of_long (strtol s)"

definition digit_char :: "nat \<Rightarrow> char" where
  "digit_char k = ''0123456789'' ! (k mod 10)"

fun dec_nat :: "nat \<Rightarrow> string" where
  "dec_nat n =
     (if n < 10 then [digit_char n]
      else dec_nat (n div 10) @ [digit_char (n mod 10)])"

definition dec_int :: "int \<Rightarrow> string" where
  "dec_int i = (if i < 0 then CHR ''-'' # dec_nat (nat (- i)) else dec_nat (nat i))"


section \<open>The program\<close>

subsection \<open>Data\<close>

text \<open>
  The anonymous struct \<^verbatim>\<open>m_args\<close>. The pointers \<^verbatim>\<open>serial\<close> and \<^verbatim>\<open>items\<close> are
  \<open>None\<close> when NULL.
\<close>

record m_args =
  list :: bool
  monitor :: bool
  debug :: int
  serial :: "string option"
  item_count :: int
  items :: "string list option"

text \<open>The constructor \<^verbatim>\<open>Program::Program\<close>.\<close>

definition Program :: m_args where
  "Program = \<lparr>list = False, monitor = False, debug = 0, serial = None,
              item_count = 0, items = None\<rparr>"

text \<open>
  What a function of the program comes to: it returns an \<^verbatim>\<open>int\<close>, or it reads through
  a null pointer or past the end of \<^verbatim>\<open>items\<close>, after which C++ promises nothing.
\<close>

datatype status = Returned int | Undefined

definition version_info :: string where
  "version_info = ''ut181a ver 0.2 (12/16/2017), loblab''"

definition help_msg :: string where
  "help_msg =
     ''UT181A USB communication tool\<newline>'' @
     ''Usage: ut181a [options] [id1] [id2] ...\<newline>'' @
     ''Options:\<newline>'' @
     ''    -h|--help   : help message\<newline>'' @
     ''    -v|--version: version info\<newline>'' @
     ''    -s|--serial : specify serial string if multiple devices connected\<newline>'' @
     ''    -m|--monitor: monitor mode (realtime measurement & transfer)\<newline>'' @
     ''    -l|--list   : list records\<newline>'' @
     ''    -d|--debug n: debug info level. default 0 for none, greater for more\<newline>'' @
     ''id1, id2...:\<newline>'' @
     ''    record index to dump (as CSV file)\<newline>''"

definition short_options :: string where
  "short_options = ''hvd:s:ml''"

definition long_options :: "long_option list" where
  "long_options =
     [\<lparr>name = ''help'',    has_arg = no_argument,       val = CHR ''h''\<rparr>,
      \<lparr>name = ''version'', has_arg = no_argument,       val = CHR ''v''\<rparr>,
      \<lparr>name = ''debug'',   has_arg = required_argument, val = CHR ''d''\<rparr>,
      \<lparr>name = ''serial'',  has_arg = required_argument, val = CHR ''s''\<rparr>,
      \<lparr>name = ''monitor'', has_arg = required_argument, val = CHR ''m''\<rparr>,
      \<lparr>name = ''list'',    has_arg = required_argument, val = CHR ''l''\<rparr>]"

subsection \<open>\<^verbatim>\<open>Help\<close> and \<^verbatim>\<open>Version\<close>\<close>

definition Help :: "event list \<times> int" where
  "Help = ([Stdout help_msg], 1)"

definition Version :: "event list \<times> int" where
  "Version = ([Stdout (version_info @ ''\<newline>'')], 2)"

subsection \<open>\<^verbatim>\<open>ParseArguments\<close>\<close>

text \<open>
  The loop around \<^verbatim>\<open>getopt_long\<close> ends because every call that returns an option
  leaves less to scan.
\<close>

lemma remaining_dropWhile:
  "sum_list (map (\<lambda>a. Suc (length a)) (dropWhile P xs))
     \<le> sum_list (map (\<lambda>a. Suc (length a)) xs)"
  by (induction xs) auto

lemma short_option_remaining:
  "short_option os c cs as nops = (diags, Ret c' oa li, d') \<Longrightarrow>
   remaining d' \<le> length cs + sum_list (map (\<lambda>a. Suc (length a)) as)"
  by (auto simp: short_option_def remaining_def
           split: option.splits has_arg_t.splits if_splits list.splits)

lemma process_long_option_remaining:
  "process_long_option los body as nops = (diags, Ret c' oa li, d') \<Longrightarrow>
   remaining d' \<le> sum_list (map (\<lambda>a. Suc (length a)) as)"
  by (auto simp: process_long_option_def remaining_def Let_def
           split: long_lookup.splits if_splits list.splits)

lemma next_element_remaining:
  "next_element os los nops rest = (diags, Ret c oa li, d') \<Longrightarrow>
   remaining d' < sum_list (map (\<lambda>a. Suc (length a)) rest)"
proof (cases rest)
  case Nil
  assume "next_element os los nops rest = (diags, Ret c oa li, d')"
  with Nil show ?thesis by (simp add: next_element_def)
next
  case (Cons a as)
  assume "next_element os los nops rest = (diags, Ret c oa li, d')"
  with Cons have "remaining d' \<le> length a + sum_list (map (\<lambda>a. Suc (length a)) as)"
    by (cases a; cases "tl a")
       (auto simp: next_element_def split: if_splits
             dest!: short_option_remaining process_long_option_remaining)
  with Cons show ?thesis by simp
qed

lemma getopt_long_remaining:
  "getopt_long posix os los d = (diags, Ret c oa li, d') \<Longrightarrow> remaining d' < remaining d"
proof (cases "nextchar d")
  case (Cons x xs)
  assume "getopt_long posix os los d = (diags, Ret c oa li, d')"
  with Cons show ?thesis
    by (auto simp: getopt_long_def remaining_def dest!: short_option_remaining)
next
  case Nil
  assume g: "getopt_long posix os los d = (diags, Ret c oa li, d')"
  show ?thesis
  proof (cases posix)
    case True
    with g Nil show ?thesis
      by (auto simp: getopt_long_def remaining_def dest!: next_element_remaining)
  next
    case False
    with g Nil have "remaining d'
       < sum_list (map (\<lambda>a. Suc (length a)) (dropWhile NONOPTION_P (args d)))"
      by (auto simp: getopt_long_def dest!: next_element_remaining)
    with remaining_dropWhile [of NONOPTION_P "args d"] Nil show ?thesis
      by (simp add: remaining_def)
  qed
qed

text \<open>Events that precede those of the rest of a computation.\<close>

definition emit :: "event list \<Rightarrow> event list \<times> 'a \<Rightarrow> event list \<times> 'a" where
  "emit out r = (out @ fst r, snd r)"

text \<open>
  The \<^verbatim>\<open>while (1)\<close> loop of \<^verbatim>\<open>ParseArguments\<close>. It is left by \<^verbatim>\<open>break\<close> when the scan
  ends (\<open>None\<close>) or by a \<^verbatim>\<open>return\<close> from inside the \<^verbatim>\<open>switch\<close>. In the case 0,
  \<^verbatim>\<open>option_index\<close> is 0 unless \<^verbatim>\<open>getopt_long\<close> has stored an index. The case \<^verbatim>\<open>'d'\<close>
  passes \<^verbatim>\<open>optarg\<close> to \<^verbatim>\<open>atoi\<close>, which reads through it. The cases \<^verbatim>\<open>'?'\<close> and
  \<^verbatim>\<open>default\<close> call \<^verbatim>\<open>Help\<close> and return \<^verbatim>\<open>-1\<close>.
\<close>

function getopt_loop ::
  "bool \<Rightarrow> m_args \<Rightarrow> getopt_data \<Rightarrow>
     event list \<times> status option \<times> m_args \<times> getopt_data" where
  "getopt_loop posix a d =
     (case getopt_long posix short_options long_options d of
        (diags, End, d') \<Rightarrow>
          (map GetoptError diags, None, a, d')
      | (diags, Ret c optarg longind, d') \<Rightarrow>
          emit (map GetoptError diags)
            (if c = CHR 0x00 then
               emit ([Stdout (''option '' @ name (long_options ! (case longind of None \<Rightarrow> 0 | Some i \<Rightarrow> i)))]
                     @ (case optarg of None \<Rightarrow> [] | Some s \<Rightarrow> [Stdout ('' with arg '' @ s)])
                     @ [Stdout ''\<newline>''])
                 (getopt_loop posix a d')
             else if c = CHR ''h'' then (fst Help, Some (Returned (snd Help)), a, d')
             else if c = CHR ''v'' then (fst Version, Some (Returned (snd Version)), a, d')
             else if c = CHR ''m'' then getopt_loop posix (a\<lparr>monitor := True\<rparr>) d'
             else if c = CHR ''l'' then getopt_loop posix (a\<lparr>list := True\<rparr>) d'
             else if c = CHR ''s'' then getopt_loop posix (a\<lparr>serial := optarg\<rparr>) d'
             else if c = CHR ''d'' then
               (case optarg of
                  None \<Rightarrow> ([], Some Undefined, a, d')
                | Some s \<Rightarrow>
                    emit (if atoi s \<ge> 9
                          then [Stdout (''Option -d with value: '' @ dec_int (atoi s) @ ''\<newline>'')]
                          else [])
                      (getopt_loop posix (a\<lparr>debug := atoi s\<rparr>) d'))
             else if c = CHR ''?'' then (fst Help, Some (Returned (- 1)), a, d')
             else (fst Help, Some (Returned (- 1)), a, d')))"
  by pat_completeness auto
termination
  by (relation "measure (\<lambda>(posix, a, d). remaining d)")
     (auto dest: getopt_long_remaining [OF sym])

declare getopt_loop.simps [simp del]

text \<open>
  \<^verbatim>\<open>ParseArguments\<close> on \<^verbatim>\<open>argv\<close> (of length \<^verbatim>\<open>argc\<close>, the program's name first).
  With \<^verbatim>\<open>argc < 1\<close> the first call of \<^verbatim>\<open>getopt_long\<close> returns \<^verbatim>\<open>-1\<close> and leaves
  \<^verbatim>\<open>optind\<close> at 1; otherwise \<^verbatim>\<open>argc - optind\<close> is the number of elements the scan
  has left, and they are copied to \<^verbatim>\<open>items\<close> in their order.
\<close>

definition ParseArguments ::
  "bool \<Rightarrow> m_args \<Rightarrow> string list \<Rightarrow> event list \<times> status \<times> m_args" where
  "ParseArguments posix a argv =
     (case (if length argv < 1
            then ([], None, a, \<lparr>args = [], nextchar = [], nonopts = []\<rparr>)
            else getopt_loop posix a \<lparr>args = tl argv, nextchar = [], nonopts = []\<rparr>) of
        (out, Some st, a1, d) \<Rightarrow> (out, st, a1)
      | (out, None, a1, d) \<Rightarrow>
          (let cnt = (if length argv < 1 then - 1 else int (length (args d)));
               a2 = a1\<lparr>item_count := cnt\<rparr>;
               out2 = (if debug a2 \<ge> 9
                       then [Stdout (''Positional argument count: '' @ dec_int cnt @ ''\<newline>'')]
                       else []);
               a3 = (if item_count a2 > 0 then a2\<lparr>items := Some (args d)\<rparr> else a2)
           in (out @ out2, Returned 0, a3)))"

subsection \<open>\<^verbatim>\<open>Init\<close>, \<^verbatim>\<open>Done\<close> and \<^verbatim>\<open>Run\<close>\<close>

text \<open>These take the value of the global \<^verbatim>\<open>g_debug\<close> as their argument \<open>g\<close>.\<close>

definition Init :: "env \<Rightarrow> int \<Rightarrow> m_args \<Rightarrow> event list \<times> int" where
  "Init e g a =
     emit ((if g \<ge> 9 then [Stderr ''Program::Init\<newline>''] else [])
           @ [SignalInstall, DevOpen (serial a)])
       (if \<not> open_result e (serial a) then
          ([Stderr ''Failed to open UT181A DMM. Please check device connection or settings.\<newline>'']
           @ (case serial a of
                Some s \<Rightarrow> [Stderr (''Is the serial string '' @ [CHR 0x27] @ s @ [CHR 0x27]
                                    @ '' correct?\<newline>'')]
              | None \<Rightarrow> []),
           - 1)
        else ([], 0))"

definition Done :: "int \<Rightarrow> event list" where
  "Done g = (if g \<ge> 9 then [Stderr ''Program::Done\<newline>''] else []) @ [DevClose]"

text \<open>
  The \<^verbatim>\<open>for\<close> loop of \<^verbatim>\<open>Run\<close> from index \<open>i\<close> on. It reads \<^verbatim>\<open>quit_flag\<close> first; then
  \<^verbatim>\<open>items[i]\<close>, which is undefined when \<^verbatim>\<open>items\<close> is NULL or shorter than
  \<^verbatim>\<open>item_count\<close>. After the loop, by \<^verbatim>\<open>break\<close> or by its end, \<^verbatim>\<open>Run\<close> returns 0.
\<close>

function receive_loop :: "env \<Rightarrow> m_args \<Rightarrow> nat \<Rightarrow> event list \<times> status" where
  "receive_loop e a i =
     (if int i < item_count a then
        (if quit_flag_at e i \<noteq> 0 then ([], Returned 0)
         else (case items a of
                 None \<Rightarrow> ([], Undefined)
               | Some xs \<Rightarrow>
                   if i < length xs
                   then emit [DevReceiveRecord (atoi (xs ! i))] (receive_loop e a (Suc i))
                   else ([], Undefined)))
      else ([], Returned 0))"
  by pat_completeness auto
termination
  by (relation "measure (\<lambda>(e, a, i). nat (item_count a - int i))") auto

declare receive_loop.simps [simp del]

definition Run :: "env \<Rightarrow> int \<Rightarrow> m_args \<Rightarrow> event list \<times> status" where
  "Run e g a =
     emit (if g \<ge> 9 then [Stderr ''Program::Run\<newline>''] else [])
       (if monitor a then
          ([Stderr ''Ctrl-C to quit the monitor\<newline>'', DevMonitor],
           Returned (if monitor_result e then 0 else - 1))
        else if list a then
          ([Stderr ''Ctrl-C to abort if it takes too long\<newline>'', DevListRecord], Returned 0)
        else if item_count a > 0 then
          emit [Stderr ''Ctrl-C to abort the long operation\<newline>''] (receive_loop e a 0)
        else if g > 0 then ([], Returned 0)
        else (fst Help, Returned (snd Help)))"

subsection \<open>\<^verbatim>\<open>Main\<close> and \<^verbatim>\<open>main\<close>\<close>

text \<open>
  \<^verbatim>\<open>Program::Main\<close> returns the events, the status, \<^verbatim>\<open>m_args\<close> and \<^verbatim>\<open>g_debug\<close>
  as it leaves them. Once the behaviour is undefined, no further event is recorded.
\<close>

definition Main :: "env \<Rightarrow> string list \<Rightarrow> event list \<times> status \<times> m_args \<times> int" where
  "Main e argv =
     (case ParseArguments (posixly_correct e) Program argv of
        (out, Undefined, a) \<Rightarrow> (out, Undefined, a, g_debug_init e)
      | (out, Returned rc, a) \<Rightarrow>
          if rc \<noteq> 0 then (out, Returned rc, a, g_debug_init e)
          else
            (let g = debug a in
             case Init e g a of
               (ev1, rc1) \<Rightarrow>
                 if rc1 \<noteq> 0 then (out @ ev1, Returned rc1, a, g)
                 else
                   (case Run e g a of
                      (ev2, Undefined) \<Rightarrow> (out @ ev1 @ ev2, Undefined, a, g)
                    | (ev2, Returned rc2) \<Rightarrow>
                        (out @ ev1 @ ev2 @ Done g, Returned rc2, a, g))))"

text \<open>
  \<^verbatim>\<open>main\<close>: \<^verbatim>\<open>Main\<close>, then the destructor \<^verbatim>\<open>Program::~Program\<close>, which reports that it
  frees \<^verbatim>\<open>items\<close> at debug level 9. The value returned becomes the exit status.
\<close>

definition main :: "env \<Rightarrow> string list \<Rightarrow> event list \<times> status" where
  "main e argv =
     (case Main e argv of
        (tr, Undefined, a, g) \<Rightarrow> (tr, Undefined)
      | (tr, Returned rc, a, g) \<Rightarrow>
          (tr @ (if items a \<noteq> None \<and> g \<ge> 9 then [Stdout ''Free memory\<newline>''] else []),
           Returned rc))"


section \<open>Reading a run\<close>

text \<open>
  The calls into the Device layer of a run, and what the run writes. The calls a mode
  body makes are those to \<^verbatim>\<open>Monitor\<close>, \<^verbatim>\<open>ListRecord\<close> and \<^verbatim>\<open>ReceiveRecord\<close>.
\<close>

fun is_device :: "event \<Rightarrow> bool" where
  "is_device (DevOpen s) = True"
| "is_device DevClose = True"
| "is_device DevMonitor = True"
| "is_device DevListRecord = True"
| "is_device (DevReceiveRecord n) = True"
| "is_device ev = False"

definition device_calls :: "event list \<Rightarrow> event list" where
  "device_calls tr = filter is_device tr"

fun is_mode_call :: "event \<Rightarrow> bool" where
  "is_mode_call DevMonitor = True"
| "is_mode_call DevListRecord = True"
| "is_mode_call (DevReceiveRecord n) = True"
| "is_mode_call ev = False"

fun is_output :: "event \<Rightarrow> bool" where
  "is_output (Stdout s) = True"
| "is_output (Stderr s) = True"
| "is_output (GetoptError g) = True"
| "is_output ev = False"

definition outputs :: "event list \<Rightarrow> event list" where
  "outputs tr = filter is_output tr"

text \<open>
  The modes of the dispatcher, as they show in a run: each of the three mode bodies of
  \<^verbatim>\<open>Run\<close> announces itself on the error stream and calls its own Device operation.
\<close>

datatype run_mode = MonitorMode | ListMode | ReceiveMode

fun modes_of_event :: "event \<Rightarrow> run_mode list" where
  "modes_of_event (Stderr s) =
     (if s = ''Ctrl-C to quit the monitor\<newline>'' then [MonitorMode]
      else if s = ''Ctrl-C to abort if it takes too long\<newline>'' then [ListMode]
      else if s = ''Ctrl-C to abort the long operation\<newline>'' then [ReceiveMode]
      else [])"
| "modes_of_event DevMonitor = [MonitorMode]"
| "modes_of_event DevListRecord = [ListMode]"
| "modes_of_event (DevReceiveRecord n) = [ReceiveMode]"
| "modes_of_event ev = []"

definition modes_run :: "event list \<Rightarrow> run_mode set" where
  "modes_run tr = set (concat (map modes_of_event tr))"

text \<open>
  The option characters \<^verbatim>\<open>getopt_long\<close> can return for the program's tables, and
  what comes with them: an argument with \<^verbatim>\<open>d\<close> and \<^verbatim>\<open>s\<close>, a diagnostic only
  with \<^verbatim>\<open>?\<close>.
\<close>

definition option_chars :: "char set" where
  "option_chars = {CHR ''h'', CHR ''v'', CHR ''d'', CHR ''s'', CHR ''m'', CHR ''l'', CHR ''?''}"

definition well_formed_ret :: "getopt_diag list \<Rightarrow> char \<Rightarrow> string option \<Rightarrow> bool" where
  "well_formed_ret diags c oa =
     (c \<in> option_chars \<and> ((c = CHR ''d'' \<or> c = CHR ''s'') \<longrightarrow> oa \<noteq> None)
      \<and> (c \<noteq> CHR ''?'' \<longrightarrow> diags = []))"

text \<open>
  All the options a complete scan reports, whatever the caller does with them:
  \<^verbatim>\<open>getopt_long\<close> called until it returns \<^verbatim>\<open>-1\<close>.
\<close>

function getopt_scan :: "bool \<Rightarrow> getopt_data \<Rightarrow> (char \<times> string option) list" where
  "getopt_scan posix d =
     (case getopt_long posix short_options long_options d of
        (diags, End, d') \<Rightarrow> []
      | (diags, Ret c optarg longind, d') \<Rightarrow> (c, optarg) # getopt_scan posix d')"
  by pat_completeness auto
termination
  by (relation "measure (\<lambda>(posix, d). remaining d)")
     (auto dest: getopt_long_remaining [OF sym])

declare getopt_scan.simps [simp del]

definition scan_argv :: "bool \<Rightarrow> string list \<Rightarrow> (char \<times> string option) list" where
  "scan_argv posix argv = getopt_scan posix \<lparr>args = tl argv, nextchar = [], nonopts = []\<rparr>"

text \<open>
  A scan in which every debug level given with \<^verbatim>\<open>-d\<close> or \<^verbatim>\<open>--debug\<close> is below 9, the
  level from which the program traces its own steps.
\<close>

definition levels_below_9 :: "(char \<times> string option) list \<Rightarrow> bool" where
  "levels_below_9 scan =
     list_all (\<lambda>co. fst co = CHR ''d'' \<longrightarrow> (case snd co of Some s \<Rightarrow> atoi s < 9 | None \<Rightarrow> True)) scan"

text \<open>The options at which the loop of \<^verbatim>\<open>ParseArguments\<close> returns.\<close>

definition returning :: "char \<times> string option \<Rightarrow> bool" where
  "returning co = (fst co = CHR ''h'' \<or> fst co = CHR ''v'' \<or> fst co = CHR ''?'')"

text \<open>
  The value \<^verbatim>\<open>ParseArguments\<close> returns at such an option: that of \<^verbatim>\<open>Help\<close>, that of
  \<^verbatim>\<open>Version\<close>, or \<^verbatim>\<open>-1\<close>.
\<close>

definition status_of_option :: "char \<Rightarrow> status" where
  "status_of_option c =
     Returned (if c = CHR ''h'' then 1 else if c = CHR ''v'' then 2 else - 1)"

text \<open>The scanner's state with further arguments behind those it has.\<close>

definition extend :: "getopt_data \<Rightarrow> string list \<Rightarrow> getopt_data" where
  "extend d later = d\<lparr>args := args d @ later\<rparr>"

text \<open>
  The number of iterations of the download loop, from \<open>i\<close> on and among \<open>n\<close> targets,
  whose test reads \<^verbatim>\<open>quit_flag\<close> as 0 before the first one that reads it set.
\<close>

definition started_from :: "env \<Rightarrow> nat \<Rightarrow> nat \<Rightarrow> nat" where
  "started_from e i n = length (takeWhile (\<lambda>j. quit_flag_at e j = 0) [i..<n])"

definition started :: "env \<Rightarrow> nat \<Rightarrow> nat" where
  "started e n = started_from e 0 n"

text \<open>
  A string that begins, after white space and one optional sign, with a decimal digit.
\<close>

definition starts_with_number :: "string \<Rightarrow> bool" where
  "starts_with_number s =
     (case dropWhile isspace s of
        [] \<Rightarrow> False
      | c # cs \<Rightarrow>
          if c = CHR ''-'' \<or> c = CHR ''+''
          then (case cs of [] \<Rightarrow> False | c' # _ \<Rightarrow> isdigit c')
          else isdigit c)"

text \<open>
  What \<^verbatim>\<open>ParseArguments\<close> leaves in \<^verbatim>\<open>m_args\<close> when it returns 0: \<^verbatim>\<open>items\<close> is
  allocated exactly when \<^verbatim>\<open>item_count\<close> is positive, with that many elements.
\<close>

definition items_ok :: "m_args \<Rightarrow> bool" where
  "items_ok a =
     (case items a of
        None \<Rightarrow> item_count a \<le> 0
      | Some ts \<Rightarrow> 0 < item_count a \<and> item_count a = int (length ts))"

text \<open>A run in which \<^verbatim>\<open>Device::Open\<close> was called and returned true.\<close>

definition open_succeeded :: "env \<Rightarrow> event list \<Rightarrow> bool" where
  "open_succeeded e tr =
     list_ex (\<lambda>ev. case ev of DevOpen s \<Rightarrow> open_result e s | _ \<Rightarrow> False) tr"

subsection \<open>Environments used as examples\<close>

text \<open>A device that opens, and no interrupt.\<close>

definition env_ok :: env where
  "env_ok = \<lparr>posixly_correct = False, g_debug_init = 0, open_result = (\<lambda>s. True),
             monitor_result = True, quit_flag_at = (\<lambda>i. 0)\<rparr>"

text \<open>No device can be opened.\<close>

definition env_no_device :: env where
  "env_no_device = env_ok\<lparr>open_result := (\<lambda>s. False)\<rparr>"

text \<open>\<^verbatim>\<open>Monitor\<close> reports a failure.\<close>

definition env_monitor_fails :: env where
  "env_monitor_fails = env_ok\<lparr>monitor_result := False\<rparr>"

text \<open>SIGINT (signal 2) arrives while the second record is downloaded.\<close>

definition env_sigint :: env where
  "env_sigint = env_ok\<lparr>quit_flag_at := (\<lambda>i. if 2 \<le> i then 2 else 0)\<rparr>"


section \<open>Properties of the scanner\<close>

lemma exact_match_mem: "exact_match los nm k = Some (i, p) \<Longrightarrow> p \<in> set los"
  by (induction los nm k rule: exact_match.induct) (auto split: if_splits)

lemma abbrev_matches_mem: "(i, p) \<in> set (abbrev_matches los nm k) \<Longrightarrow> p \<in> set los"
  by (induction los nm k rule: abbrev_matches.induct) (auto split: if_splits)

lemma find_long_mem: "find_long los nm = Found i p \<Longrightarrow> p \<in> set los"
proof (cases "exact_match los nm 0")
  case (Some ip)
  assume "find_long los nm = Found i p"
  with Some show ?thesis
    by (cases ip) (auto simp: find_long_def dest: exact_match_mem)
next
  case None
  assume f: "find_long los nm = Found i p"
  with None obtain others where "abbrev_matches los nm 0 = (i, p) # others"
    by (auto simp: find_long_def split: list.splits if_splits)
  then have "(i, p) \<in> set (abbrev_matches los nm 0)" by simp
  then show ?thesis by (rule abbrev_matches_mem)
qed

lemma short_spec_program:
  "short_spec short_options c = Some h \<Longrightarrow>
     (c = CHR ''h'' \<or> c = CHR ''v'' \<or> c = CHR ''m'' \<or> c = CHR ''l'') \<and> h = no_argument
     \<or> (c = CHR ''d'' \<or> c = CHR ''s'') \<and> h = required_argument"
  by (simp add: short_options_def split: if_splits)

lemma short_option_program:
  "short_option short_options c cs as nops = (diags, Ret c' oa li, d') \<Longrightarrow>
   well_formed_ret diags c' oa"
  unfolding short_option_def well_formed_ret_def option_chars_def
  by (auto split: option.splits has_arg_t.splits if_splits list.splits dest!: short_spec_program)

lemma process_long_option_program:
  "process_long_option long_options body as nops = (diags, Ret c' oa li, d') \<Longrightarrow>
   well_formed_ret diags c' oa"
  unfolding process_long_option_def well_formed_ret_def option_chars_def Let_def
  by (auto split: long_lookup.splits if_splits list.splits dest!: find_long_mem
           simp: long_options_def)

lemma next_element_program:
  "next_element short_options long_options nops rest = (diags, Ret c oa li, d') \<Longrightarrow>
   well_formed_ret diags c oa"
  unfolding next_element_def
  by (auto split: list.splits if_splits
           dest: short_option_program process_long_option_program)

lemma getopt_long_program:
  "getopt_long posix short_options long_options d = (diags, Ret c oa li, d') \<Longrightarrow>
   well_formed_ret diags c oa"
  unfolding getopt_long_def
  by (auto split: list.splits if_splits
           dest: short_option_program next_element_program)

lemma getopt_long_End:
  "getopt_long posix os los d = (diags, End, d') \<Longrightarrow> diags = [] \<and> nonopts d' = []"
  by (auto simp: getopt_long_def next_element_def short_option_def process_long_option_def
             Let_def
           split: list.splits if_splits option.splits has_arg_t.splits long_lookup.splits)

lemmas getopt_long_End_diags = getopt_long_End [THEN conjunct1]

lemmas getopt_long_End_nonopts = getopt_long_End [THEN conjunct2]

lemma short_option_subseq:
  "short_option os c cs as nops = (diags, r, d') \<Longrightarrow> nonopts d' = nops \<and> subseq (args d') as"
  by (auto simp: short_option_def split: option.splits has_arg_t.splits if_splits list.splits)

lemma process_long_option_subseq:
  "process_long_option los body as nops = (diags, r, d') \<Longrightarrow>
   nonopts d' = nops \<and> subseq (args d') as"
  by (auto simp: process_long_option_def Let_def split: long_lookup.splits if_splits list.splits)

lemma subseq_prepend: "subseq xs ys \<Longrightarrow> subseq (zs @ xs) (zs @ ys)"
  by (induction zs) auto

lemma subseq_skip: "subseq xs ys \<Longrightarrow> subseq (zs @ xs) (zs @ a # ys)"
  by (induction zs) auto

lemma next_element_subseq:
  assumes "next_element os los nops rest = (diags, r, d')"
  shows "subseq (nonopts d' @ args d') (nops @ rest)"
proof (cases rest)
  case Nil
  with assms show ?thesis by (auto simp: next_element_def)
next
  case (Cons a as)
  with assms consider
    (ended) "nonopts d' = []" "args d' = nops @ as \<or> args d' = nops @ a # as"
    | (option) "nonopts d' = nops" "subseq (args d') as"
    by (auto simp: next_element_def split: if_splits list.splits
          dest: process_long_option_subseq short_option_subseq)
  then show ?thesis
  proof cases
    case ended
    with Cons show ?thesis using subseq_skip [of as as nops a] by auto
  next
    case option
    with Cons show ?thesis using subseq_skip [of "args d'" as nops a] by simp
  qed
qed

lemma getopt_long_subseq:
  assumes "getopt_long posix os los d = (diags, r, d')"
  shows "subseq (nonopts d' @ args d') (nonopts d @ args d)"
proof (cases "nextchar d")
  case (Cons c cs)
  with assms short_option_subseq [of os c cs "args d" "nonopts d" diags r d'] show ?thesis
    by (auto simp: getopt_long_def intro: subseq_prepend)
next
  case Nil
  show ?thesis
  proof (cases posix)
    case True
    with assms Nil show ?thesis
      by (auto simp: getopt_long_def dest: next_element_subseq)
  next
    case False
    with assms Nil
    have "subseq (nonopts d' @ args d')
            ((nonopts d @ takeWhile NONOPTION_P (args d)) @ dropWhile NONOPTION_P (args d))"
      by (auto simp: getopt_long_def dest: next_element_subseq)
    then show ?thesis by simp
  qed
qed

lemma short_option_extend:
  "short_option os c cs as nops = (diags, Ret c' oa li, d') \<Longrightarrow> c' \<noteq> CHR ''?'' \<Longrightarrow>
   short_option os c cs (as @ later) nops = (diags, Ret c' oa li, extend d' later)"
  by (auto simp: short_option_def extend_def
           split: option.splits has_arg_t.splits if_splits list.splits)

lemma process_long_option_extend:
  "process_long_option los body as nops = (diags, Ret c' oa li, d') \<Longrightarrow> c' \<noteq> CHR ''?'' \<Longrightarrow>
   process_long_option los body (as @ later) nops = (diags, Ret c' oa li, extend d' later)"
  by (auto simp: process_long_option_def Let_def extend_def
           split: long_lookup.splits if_splits list.splits)

lemma next_element_extend:
  "next_element os los nops rest = (diags, Ret c oa li, d') \<Longrightarrow> c \<noteq> CHR ''?'' \<Longrightarrow>
   next_element os los nops (rest @ later) = (diags, Ret c oa li, extend d' later)"
  by (cases rest)
     (auto simp: next_element_def split: if_splits list.splits
           dest: short_option_extend process_long_option_extend)

lemma getopt_long_extend:
  assumes g: "getopt_long posix os los d = (diags, Ret c oa li, d')" and c: "c \<noteq> CHR ''?''"
  shows "getopt_long posix os los (extend d later) = (diags, Ret c oa li, extend d' later)"
proof (cases "nextchar d")
  case (Cons x xs)
  with g have "short_option os x xs (args d) (nonopts d) = (diags, Ret c oa li, d')"
    by (simp add: getopt_long_def)
  from short_option_extend [OF this c, of later] Cons show ?thesis
    by (simp add: getopt_long_def extend_def)
next
  case Nil
  show ?thesis
  proof (cases posix)
    case True
    with g Nil have "next_element os los (nonopts d) (args d) = (diags, Ret c oa li, d')"
      by (simp add: getopt_long_def)
    from next_element_extend [OF this c, of later] Nil True show ?thesis
      by (simp add: getopt_long_def extend_def)
  next
    case False
    with g Nil have n: "next_element os los (nonopts d @ takeWhile NONOPTION_P (args d))
             (dropWhile NONOPTION_P (args d)) = (diags, Ret c oa li, d')"
      by (simp add: getopt_long_def)
    then obtain a as where dw: "dropWhile NONOPTION_P (args d) = a # as"
      by (cases "dropWhile NONOPTION_P (args d)") (auto simp: next_element_def)
    then have "a \<in> set (args d)" "\<not> NONOPTION_P a"
      using set_dropWhileD [of a NONOPTION_P "args d"] hd_dropWhile [of NONOPTION_P "args d"]
      by auto
    then have "takeWhile NONOPTION_P (args d @ later) = takeWhile NONOPTION_P (args d)"
      "dropWhile NONOPTION_P (args d @ later) = dropWhile NONOPTION_P (args d) @ later"
      by (simp_all add: takeWhile_append1 dropWhile_append1)
    with next_element_extend [OF n c, of later] Nil False show ?thesis
      by (simp add: getopt_long_def extend_def)
  qed
qed

lemma getopt_scan_End:
  "getopt_long posix short_options long_options d = (diags, End, d') \<Longrightarrow> getopt_scan posix d = []"
  by (simp add: getopt_scan.simps)

lemma getopt_scan_Ret:
  "getopt_long posix short_options long_options d = (diags, Ret c oa li, d') \<Longrightarrow>
   getopt_scan posix d = (c, oa) # getopt_scan posix d'"
  by (simp add: getopt_scan.simps)

lemma scan_argv_Nil: "scan_argv posix [] = []"
  by (simp add: scan_argv_def getopt_scan.simps getopt_long_def next_element_def)

lemma find_first_help:
  "CHR ''h'' \<in> fst ` set scan \<Longrightarrow>
   (\<exists>co. find returning scan = Some co)
   \<and> (list_all (\<lambda>co. \<not> returning co) (takeWhile (\<lambda>co. fst co \<noteq> CHR ''h'') scan) \<longrightarrow>
        (\<exists>oa. find returning scan = Some (CHR ''h'', oa)))"
proof (induction scan)
  case Nil
  then show ?case by simp
next
  case (Cons x scan)
  then show ?case by (cases x) (auto simp: returning_def)
qed

section \<open>Properties of \<^verbatim>\<open>ParseArguments\<close>\<close>

subsection \<open>The loop\<close>

lemma getopt_loop_End:
  "getopt_long posix short_options long_options d = (diags, End, d') \<Longrightarrow>
   getopt_loop posix a d = ([], None, a, d')"
  by (frule getopt_long_End_diags) (simp add: getopt_loop.simps)

lemma getopt_loop_Ret:
  assumes "getopt_long posix short_options long_options d = (diags, Ret c oa li, d')"
  shows "getopt_loop posix a d =
     (if c = CHR ''h'' then ([Stdout help_msg], Some (Returned 1), a, d')
      else if c = CHR ''v'' then ([Stdout (version_info @ ''\<newline>'')], Some (Returned 2), a, d')
      else if c = CHR ''m'' then getopt_loop posix (a\<lparr>monitor := True\<rparr>) d'
      else if c = CHR ''l'' then getopt_loop posix (a\<lparr>list := True\<rparr>) d'
      else if c = CHR ''s'' then getopt_loop posix (a\<lparr>serial := oa\<rparr>) d'
      else if c = CHR ''d'' then
        emit (if atoi (the oa) \<ge> 9
              then [Stdout (''Option -d with value: '' @ dec_int (atoi (the oa)) @ ''\<newline>'')]
              else [])
          (getopt_loop posix (a\<lparr>debug := atoi (the oa)\<rparr>) d')
      else (map GetoptError diags @ [Stdout help_msg], Some (Returned (- 1)), a, d'))"
  using getopt_long_program [OF assms] assms
  by (subst getopt_loop.simps)
     (auto simp: well_formed_ret_def option_chars_def emit_def Help_def Version_def)

lemma getopt_loop_induct [case_names step]:
  assumes "\<And>a d. (\<And>diags c oa li d' a'.
              getopt_long posix short_options long_options d = (diags, Ret c oa li, d')
              \<Longrightarrow> P a' d') \<Longrightarrow> P a d"
  shows "P a d"
proof (induction "remaining d" arbitrary: a d rule: less_induct)
  case less
  show ?case
    by (rule assms) (rule less, erule getopt_long_remaining)
qed

lemma getopt_loop_result_induct
  [case_names End Help Version Monitor List Serial Debug Invalid]:
  assumes End: "\<And>a d d'. getopt_long posix short_options long_options d = ([], End, d')
            \<Longrightarrow> P a d ([], None, a, d')"
    and Help: "\<And>a d oa li d'.
            getopt_long posix short_options long_options d = ([], Ret (CHR ''h'') oa li, d')
            \<Longrightarrow> P a d ([Stdout help_msg], Some (Returned 1), a, d')"
    and Version: "\<And>a d oa li d'.
            getopt_long posix short_options long_options d = ([], Ret (CHR ''v'') oa li, d')
            \<Longrightarrow> P a d ([Stdout (version_info @ ''\<newline>'')], Some (Returned 2), a, d')"
    and Monitor: "\<And>a d oa li d'.
            getopt_long posix short_options long_options d = ([], Ret (CHR ''m'') oa li, d')
            \<Longrightarrow> P (a\<lparr>monitor := True\<rparr>) d' (getopt_loop posix (a\<lparr>monitor := True\<rparr>) d')
            \<Longrightarrow> P a d (getopt_loop posix (a\<lparr>monitor := True\<rparr>) d')"
    and List: "\<And>a d oa li d'.
            getopt_long posix short_options long_options d = ([], Ret (CHR ''l'') oa li, d')
            \<Longrightarrow> P (a\<lparr>list := True\<rparr>) d' (getopt_loop posix (a\<lparr>list := True\<rparr>) d')
            \<Longrightarrow> P a d (getopt_loop posix (a\<lparr>list := True\<rparr>) d')"
    and Serial: "\<And>a d s li d'.
            getopt_long posix short_options long_options d = ([], Ret (CHR ''s'') (Some s) li, d')
            \<Longrightarrow> P (a\<lparr>serial := Some s\<rparr>) d' (getopt_loop posix (a\<lparr>serial := Some s\<rparr>) d')
            \<Longrightarrow> P a d (getopt_loop posix (a\<lparr>serial := Some s\<rparr>) d')"
    and Debug: "\<And>a d s li d'.
            getopt_long posix short_options long_options d = ([], Ret (CHR ''d'') (Some s) li, d')
            \<Longrightarrow> P (a\<lparr>debug := atoi s\<rparr>) d' (getopt_loop posix (a\<lparr>debug := atoi s\<rparr>) d')
            \<Longrightarrow> P a d
                 (emit (if atoi s \<ge> 9
                        then [Stdout (''Option -d with value: '' @ dec_int (atoi s) @ ''\<newline>'')]
                        else [])
                    (getopt_loop posix (a\<lparr>debug := atoi s\<rparr>) d'))"
    and Invalid: "\<And>a d diags oa li d'.
            getopt_long posix short_options long_options d = (diags, Ret (CHR ''?'') oa li, d')
            \<Longrightarrow> P a d (map GetoptError diags @ [Stdout help_msg], Some (Returned (- 1)), a, d')"
  shows "P a d (getopt_loop posix a d)"
proof (induction a d rule: getopt_loop_induct [where posix = posix])
  case (step a d)
  obtain diags ret d1 where g: "getopt_long posix short_options long_options d = (diags, ret, d1)"
    by (cases "getopt_long posix short_options long_options d") auto
  show ?case
  proof (cases ret)
    case End
    with g have g': "getopt_long posix short_options long_options d = ([], End, d1)"
      by (auto dest: getopt_long_End_diags)
    show ?thesis using assms(1) [OF g'] by (simp add: getopt_loop_End [OF g'])
  next
    case (Ret c oa li)
    with g have g': "getopt_long posix short_options long_options d = (diags, Ret c oa li, d1)"
      by simp
    note wf = getopt_long_program [OF g', unfolded well_formed_ret_def option_chars_def]
    note ih = step.IH [OF g']
    consider "c = CHR ''h''" | "c = CHR ''v''" | "c = CHR ''m''" | "c = CHR ''l''"
      | "c = CHR ''s''" | "c = CHR ''d''" | "c = CHR ''?''"
      using wf by auto
    then show ?thesis
    proof cases
      case 1
      with wf g' have "getopt_long posix short_options long_options d = ([], Ret (CHR ''h'') oa li, d1)"
        by simp
      from Help [OF this] 1 show ?thesis by (simp add: getopt_loop_Ret [OF g'])
    next
      case 2
      with wf g' have "getopt_long posix short_options long_options d = ([], Ret (CHR ''v'') oa li, d1)"
        by simp
      from Version [OF this] 2 show ?thesis by (simp add: getopt_loop_Ret [OF g'])
    next
      case 3
      with wf g' have "getopt_long posix short_options long_options d = ([], Ret (CHR ''m'') oa li, d1)"
        by simp
      from Monitor [OF this ih] 3 show ?thesis by (simp add: getopt_loop_Ret [OF g'])
    next
      case 4
      with wf g' have "getopt_long posix short_options long_options d = ([], Ret (CHR ''l'') oa li, d1)"
        by simp
      from List [OF this ih] 4 show ?thesis by (simp add: getopt_loop_Ret [OF g'])
    next
      case 5
      with wf obtain s where s: "oa = Some s" by auto
      with 5 wf g' have "getopt_long posix short_options long_options d = ([], Ret (CHR ''s'') (Some s) li, d1)"
        by simp
      from Serial [OF this ih] 5 s show ?thesis by (simp add: getopt_loop_Ret [OF g'])
    next
      case 6
      with wf obtain s where s: "oa = Some s" by auto
      with 6 wf g' have "getopt_long posix short_options long_options d = ([], Ret (CHR ''d'') (Some s) li, d1)"
        by simp
      from Debug [OF this ih] 6 s show ?thesis
        by (simp add: getopt_loop_Ret [OF g'] split del: if_split cong: if_cong)
    next
      case 7
      with g' have "getopt_long posix short_options long_options d = (diags, Ret (CHR ''?'') oa li, d1)"
        by simp
      from Invalid [OF this] 7 show ?thesis by (simp add: getopt_loop_Ret [OF g'])
    qed
  qed
qed

lemma getopt_loop_items:
  "items (fst (snd (snd (getopt_loop posix a d)))) = items a"
  by (rule getopt_loop_result_induct [where P = "\<lambda>a d r. items (fst (snd (snd r))) = items a"])
     (simp_all add: emit_def)

lemma getopt_loop_status:
  "fst (snd (getopt_loop posix a d))
     \<in> {None, Some (Returned 1), Some (Returned 2), Some (Returned (- 1))}"
  by (rule getopt_loop_result_induct
        [where P = "\<lambda>a d r. fst (snd r) \<in> {None, Some (Returned 1), Some (Returned 2), Some (Returned (- 1))}"])
     (simp_all add: emit_def)

lemma getopt_loop_no_device:
  "device_calls (fst (getopt_loop posix a d)) = []"
  by (rule getopt_loop_result_induct [where P = "\<lambda>a d r. device_calls (fst r) = []"])
     (simp_all add: emit_def device_calls_def)

lemma getopt_loop_diagnostics:
  "fst (snd (getopt_loop posix a d)) \<noteq> Some (Returned (- 1)) \<longrightarrow>
     (\<forall>g. GetoptError g \<notin> set (fst (getopt_loop posix a d)))"
  by (rule getopt_loop_result_induct
        [where P = "\<lambda>a d r. fst (snd r) \<noteq> Some (Returned (- 1)) \<longrightarrow>
                      (\<forall>g. GetoptError g \<notin> set (fst r))"])
     (auto simp: emit_def)

lemma getopt_loop_quiet:
  "fst (snd (getopt_loop posix a d)) = None \<longrightarrow> levels_below_9 (getopt_scan posix d) \<longrightarrow>
     fst (getopt_loop posix a d) = []
     \<and> (debug a < 9 \<longrightarrow> debug (fst (snd (snd (getopt_loop posix a d)))) < 9)"
  by (rule getopt_loop_result_induct
        [where P = "\<lambda>a d r. fst (snd r) = None \<longrightarrow> levels_below_9 (getopt_scan posix d) \<longrightarrow>
                      fst r = [] \<and> (debug a < 9 \<longrightarrow> debug (fst (snd (snd r))) < 9)"])
     (simp_all add: emit_def levels_below_9_def getopt_scan_Ret)

lemma getopt_loop_subseq:
  "fst (snd (getopt_loop posix a d)) = None \<longrightarrow>
     subseq (args (snd (snd (snd (getopt_loop posix a d))))) (nonopts d @ args d)"
proof (rule getopt_loop_result_induct
        [where P = "\<lambda>a d r. fst (snd r) = None \<longrightarrow>
                      subseq (args (snd (snd (snd r)))) (nonopts d @ args d)"],
       goal_cases)
  case (1 a d d')
  from getopt_long_subseq [OF 1] getopt_long_End_nonopts [OF 1] show ?case by simp
next
  case (4 a d oa li d')
  from getopt_long_subseq [OF 4(1)] 4(2) show ?case by (auto intro: subseq_order.trans)
next
  case (5 a d oa li d')
  from getopt_long_subseq [OF 5(1)] 5(2) show ?case by (auto intro: subseq_order.trans)
next
  case (6 a d s li d')
  from getopt_long_subseq [OF 6(1)] 6(2) show ?case by (auto intro: subseq_order.trans)
next
  case (7 a d s li d')
  from getopt_long_subseq [OF 7(1)] 7(2) show ?case
    by (auto simp: emit_def intro: subseq_order.trans)
qed simp_all

lemma getopt_loop_extend:
  "fst (snd (getopt_loop posix a d)) \<in> {Some (Returned 1), Some (Returned 2)} \<longrightarrow>
     fst (getopt_loop posix a (extend d later)) = fst (getopt_loop posix a d)
     \<and> fst (snd (getopt_loop posix a (extend d later))) = fst (snd (getopt_loop posix a d))
     \<and> fst (snd (snd (getopt_loop posix a (extend d later))))
         = fst (snd (snd (getopt_loop posix a d)))"
proof (rule getopt_loop_result_induct
        [where P = "\<lambda>a d r. fst (snd r) \<in> {Some (Returned 1), Some (Returned 2)} \<longrightarrow>
           fst (getopt_loop posix a (extend d later)) = fst r
           \<and> fst (snd (getopt_loop posix a (extend d later))) = fst (snd r)
           \<and> fst (snd (snd (getopt_loop posix a (extend d later)))) = fst (snd (snd r))"],
       goal_cases)
  case (2 a d oa li d')
  from getopt_long_extend [OF 2, of later] show ?case by (simp add: getopt_loop_Ret)
next
  case (3 a d oa li d')
  from getopt_long_extend [OF 3, of later] show ?case by (simp add: getopt_loop_Ret)
next
  case (4 a d oa li d')
  from getopt_long_extend [OF 4(1), of later] 4(2) show ?case by (simp add: getopt_loop_Ret)
next
  case (5 a d oa li d')
  from getopt_long_extend [OF 5(1), of later] 5(2) show ?case by (simp add: getopt_loop_Ret)
next
  case (6 a d s li d')
  from getopt_long_extend [OF 6(1), of later] 6(2) show ?case by (simp add: getopt_loop_Ret)
next
  case (7 a d s li d')
  from getopt_long_extend [OF 7(1), of later] 7(2) show ?case
    by (simp add: getopt_loop_Ret emit_def)
qed simp_all

lemma getopt_loop_scan:
  "fst (snd (getopt_loop posix a d)) =
     map_option (status_of_option \<circ> fst) (find returning (getopt_scan posix d))"
  by (rule getopt_loop_result_induct
        [where P = "\<lambda>a d r. fst (snd r) =
           map_option (status_of_option \<circ> fst) (find returning (getopt_scan posix d))"])
     (simp_all add: getopt_scan_End getopt_scan_Ret returning_def status_of_option_def emit_def)

subsection \<open>The function\<close>

lemma ParseArguments_status:
  "fst (snd (ParseArguments posix a argv))
     \<in> {Returned 0, Returned 1, Returned 2, Returned (- 1)}"
proof (cases "length argv < 1")
  case True
  then show ?thesis by (simp add: ParseArguments_def Let_def)
next
  case False
  let ?d = "\<lparr>args = tl argv, nextchar = [], nonopts = []\<rparr>"
  obtain out r a1 d1 where l: "getopt_loop posix a ?d = (out, r, a1, d1)"
    by (cases "getopt_loop posix a ?d") auto
  with getopt_loop_status [of posix a ?d] False show ?thesis
    by (auto simp: ParseArguments_def Let_def)
qed

lemma ParseArguments_no_device:
  "device_calls (fst (ParseArguments posix a argv)) = []"
proof (cases "length argv < 1")
  case True
  then show ?thesis by (simp add: ParseArguments_def Let_def device_calls_def)
next
  case False
  let ?d = "\<lparr>args = tl argv, nextchar = [], nonopts = []\<rparr>"
  obtain out r a1 d1 where l: "getopt_loop posix a ?d = (out, r, a1, d1)"
    by (cases "getopt_loop posix a ?d") auto
  with getopt_loop_no_device [of posix a ?d] False show ?thesis
    by (cases r) (auto simp: ParseArguments_def Let_def device_calls_def)
qed

lemma ParseArguments_items:
  assumes "items a = None"
  shows "if fst (snd (ParseArguments posix a argv)) = Returned 0
         then items_ok (snd (snd (ParseArguments posix a argv)))
         else items (snd (snd (ParseArguments posix a argv))) = None"
proof (cases "length argv < 1")
  case True
  with assms show ?thesis by (simp add: ParseArguments_def Let_def items_ok_def)
next
  case False
  let ?d = "\<lparr>args = tl argv, nextchar = [], nonopts = []\<rparr>"
  obtain out r a1 d1 where l: "getopt_loop posix a ?d = (out, r, a1, d1)"
    by (cases "getopt_loop posix a ?d") auto
  with getopt_loop_items [of posix a ?d] getopt_loop_status [of posix a ?d] assms False
  show ?thesis
    by (cases r) (auto simp: ParseArguments_def Let_def items_ok_def)
qed

lemma ParseArguments_quiet:
  assumes "ParseArguments posix Program argv = (out, Returned 0, a)"
    and "levels_below_9 (scan_argv posix argv)"
  shows "out = []" and "debug a < 9"
proof -
  let ?d = "\<lparr>args = tl argv, nextchar = [], nonopts = []\<rparr>"
  obtain lo r a1 d1 where l: "getopt_loop posix Program ?d = (lo, r, a1, d1)"
    by (cases "getopt_loop posix Program ?d") auto
  have "out = [] \<and> debug a < 9"
  proof (cases "length argv < 1")
    case True
    with assms(1) show ?thesis by (auto simp: ParseArguments_def Let_def Program_def)
  next
    case False
    with assms(1) l getopt_loop_status [of posix Program ?d] have r: "r = None"
      by (cases r) (auto simp: ParseArguments_def Let_def)
    from getopt_loop_quiet [of posix Program ?d] l r assms(2)
    have "lo = []" "debug a1 < 9" by (simp_all add: scan_argv_def Program_def)
    with assms(1) l r False show ?thesis
      by (auto simp: ParseArguments_def Let_def split: if_splits)
  qed
  then show "out = []" and "debug a < 9" by simp_all
qed

lemma ParseArguments_targets:
  assumes "ParseArguments posix Program argv = (out, Returned 0, a)"
    and "items a = Some ts"
  shows "subseq ts (tl argv)"
proof -
  let ?d = "\<lparr>args = tl argv, nextchar = [], nonopts = []\<rparr>"
  obtain lo r a1 d1 where l: "getopt_loop posix Program ?d = (lo, r, a1, d1)"
    by (cases "getopt_loop posix Program ?d") auto
  show ?thesis
  proof (cases "length argv < 1")
    case True
    with assms show ?thesis by (auto simp: ParseArguments_def Let_def Program_def)
  next
    case False
    with assms(1) l getopt_loop_status [of posix Program ?d] have r: "r = None"
      by (cases r) (auto simp: ParseArguments_def Let_def)
    from getopt_loop_items [of posix Program ?d] l have "items a1 = None"
      by (simp add: Program_def)
    with assms l r False have "ts = args d1"
      by (auto simp: ParseArguments_def Let_def split: if_splits)
    with getopt_loop_subseq [of posix Program ?d] l r show ?thesis by simp
  qed
qed

lemma ParseArguments_extend:
  assumes "fst (snd (ParseArguments posix a pre)) \<in> {Returned 1, Returned 2}"
  shows "ParseArguments posix a (pre @ later) = ParseArguments posix a pre"
    and "\<forall>g. GetoptError g \<notin> set (fst (ParseArguments posix a pre))"
proof -
  let ?d = "\<lparr>args = tl pre, nextchar = [], nonopts = []\<rparr>"
  from assms have ne: "pre \<noteq> []" by (auto simp: ParseArguments_def Let_def)
  then have ext: "\<lparr>args = tl (pre @ later), nextchar = [], nonopts = []\<rparr> = extend ?d later"
    by (simp add: extend_def)
  obtain out r a1 d1 where l: "getopt_loop posix a ?d = (out, r, a1, d1)"
    by (cases "getopt_loop posix a ?d") auto
  with assms ne have r: "r \<in> {Some (Returned 1), Some (Returned 2)}"
    by (cases r) (auto simp: ParseArguments_def Let_def)
  obtain out' r' a1' d1' where l': "getopt_loop posix a (extend ?d later) = (out', r', a1', d1')"
    by (cases "getopt_loop posix a (extend ?d later)") auto
  from getopt_loop_extend [of posix a ?d later] l l' r
  have "out' = out" "r' = r" "a1' = a1" by auto
  with l l' r ne ext show "ParseArguments posix a (pre @ later) = ParseArguments posix a pre"
    by (auto simp: ParseArguments_def Let_def)
  from getopt_loop_diagnostics [of posix a ?d] l r ne
  show "\<forall>g. GetoptError g \<notin> set (fst (ParseArguments posix a pre))"
    by (auto simp: ParseArguments_def Let_def)
qed

lemma ParseArguments_scan:
  assumes "find returning (scan_argv posix argv) = Some co"
  shows "fst (snd (ParseArguments posix a argv)) = status_of_option (fst co)"
proof -
  let ?d = "\<lparr>args = tl argv, nextchar = [], nonopts = []\<rparr>"
  from assms have ne: "argv \<noteq> []" by (auto simp: scan_argv_Nil)
  obtain out r a1 d1 where l: "getopt_loop posix a ?d = (out, r, a1, d1)"
    by (cases "getopt_loop posix a ?d") auto
  with getopt_loop_scan [of posix a ?d] assms have "r = Some (status_of_option (fst co))"
    by (simp add: scan_argv_def)
  with l ne show ?thesis by (simp add: ParseArguments_def)
qed

section \<open>Properties of the dispatcher\<close>

subsection \<open>The download loop and \<^verbatim>\<open>atoi\<close>\<close>

lemma receive_loop_modes:
  "set (concat (map modes_of_event (fst (receive_loop e a i)))) \<subseteq> {ReceiveMode}"
proof (induction e a i rule: receive_loop.induct)
  case (1 e a i)
  show ?case
    using "1.IH"
    by (subst receive_loop.simps)
       (auto simp: emit_def split: option.splits)
qed

lemma receive_loop_events:
  "set (fst (receive_loop e a i)) \<subseteq> range DevReceiveRecord"
proof (induction e a i rule: receive_loop.induct)
  case (1 e a i)
  then show ?case
    by (subst receive_loop.simps) (auto simp: emit_def split: option.splits)
qed

lemma started_from_step:
  "i < n \<Longrightarrow> started_from e i n =
     (if quit_flag_at e i = 0 then Suc (started_from e (Suc i) n) else 0)"
  by (simp add: started_from_def upt_conv_Cons)

lemma started_from_end: "\<not> i < n \<Longrightarrow> started_from e i n = 0"
  by (simp add: started_from_def)

lemma receive_loop_eq:
  "items a = Some ts \<Longrightarrow> item_count a = int (length ts) \<Longrightarrow>
   receive_loop e a i =
     (map (\<lambda>t. DevReceiveRecord (atoi t))
        (take (started_from e i (length ts)) (drop i ts)), Returned 0)"
proof (induction e a i rule: receive_loop.induct)
  case (1 e a i)
  note its = "1.prems"
  show ?case
  proof (cases "i < length ts")
    case False
    with its show ?thesis
      by (subst receive_loop.simps) (simp add: started_from_end)
  next
    case True
    show ?thesis
    proof (cases "quit_flag_at e i = 0")
      case False
      with True its show ?thesis
        by (subst receive_loop.simps) (simp add: started_from_step)
    next
      case q: True
      from True have "drop i ts = ts ! i # drop (Suc i) ts"
        by (simp add: Cons_nth_drop_Suc)
      with True q its "1.IH" [of ts] show ?thesis
        by (subst receive_loop.simps) (simp add: started_from_step emit_def)
    qed
  qed
qed

lemma started_reads_zero: "i < started e n \<Longrightarrow> quit_flag_at e i = 0"
proof -
  assume i: "i < started e n"
  let ?P = "\<lambda>j. quit_flag_at e j = 0"
  from i have l: "i < length (takeWhile ?P [0..<n])" by (simp add: started_def started_from_def)
  then have "takeWhile ?P [0..<n] ! i \<in> set (takeWhile ?P [0..<n])" by (rule nth_mem)
  then have p: "?P (takeWhile ?P [0..<n] ! i)" by (rule set_takeWhileD [THEN conjunct2])
  from l have "takeWhile ?P [0..<n] ! i = [0..<n] ! i" by (rule takeWhile_nth)
  moreover from l have "i < n"
    using length_takeWhile_le [of ?P "[0..<n]"] by simp
  ultimately show ?thesis using p by simp
qed

lemma started_stops: "started e n < n \<Longrightarrow> quit_flag_at e (started e n) \<noteq> 0"
  using nth_length_takeWhile [of "\<lambda>j. quit_flag_at e j = 0" "[0..<n]"]
  by (simp add: started_def started_from_def)

lemma started_all: "(\<And>i. i < n \<Longrightarrow> quit_flag_at e i = 0) \<Longrightarrow> started e n = n"
  by (simp add: started_def started_from_def takeWhile_eq_all_conv [THEN iffD2])

lemma digits_value_nondigit:
  "(case s of [] \<Rightarrow> True | c # _ \<Rightarrow> \<not> isdigit c) \<Longrightarrow> digits_value 0 s = 0"
  by (cases s) auto

lemma atoi_no_number: "\<not> starts_with_number s \<Longrightarrow> atoi s = 0"
proof -
  assume n: "\<not> starts_with_number s"
  define s1 where "s1 = dropWhile isspace s"
  have "digits_value 0
          (case s1 of
             c # cs \<Rightarrow> if c = CHR ''-'' \<or> c = CHR ''+'' then cs else s1
           | [] \<Rightarrow> []) = 0"
  proof (cases s1)
    case Nil
    then show ?thesis by simp
  next
    case (Cons c cs)
    with n show ?thesis
      unfolding starts_with_number_def s1_def [symmetric]
      by (cases cs) (auto split: if_splits)
  qed
  then have "digits_value 0
          (case dropWhile isspace s of
             c # cs \<Rightarrow> if c = CHR ''-'' \<or> c = CHR ''+'' then cs else dropWhile isspace s
           | [] \<Rightarrow> []) = 0"
    unfolding s1_def .
  then show ?thesis
    by (simp add: atoi_def strtol_def Let_def int_of_long_def LONG_MAX_def LONG_MIN_def)
qed

subsection \<open>\<^verbatim>\<open>Run\<close>, \<^verbatim>\<open>Main\<close> and \<^verbatim>\<open>main\<close>\<close>

lemma Run_status:
  "items_ok a \<Longrightarrow> snd (Run e g a) \<noteq> Undefined"
  by (auto simp: Run_def emit_def Help_def items_ok_def receive_loop_eq split: option.splits)

lemma Run_device_calls:
  "device_calls (fst (Run e g a)) = filter is_mode_call (fst (Run e g a))"
proof -
  have "filter is_device (fst (receive_loop e a 0)) = filter is_mode_call (fst (receive_loop e a 0))"
    using receive_loop_events [of e a 0] by (intro filter_cong) auto
  then show ?thesis
    by (simp add: Run_def emit_def Help_def device_calls_def)
qed

lemma Main_unfold:
  assumes p: "ParseArguments (posixly_correct e) Program argv = (out, Returned 0, a)"
  shows "items_ok a"
    and "Main e argv =
      (if open_result e (serial a)
       then (out @ fst (Init e (debug a) a) @ fst (Run e (debug a) a) @ Done (debug a),
             snd (Run e (debug a) a), a, debug a)
       else (out @ fst (Init e (debug a) a), Returned (- 1), a, debug a))"
proof -
  from ParseArguments_items [of Program "posixly_correct e" argv] p
  show ok: "items_ok a" by (simp add: Program_def)
  from Run_status [OF ok, of e "debug a"]
  obtain ev rc where "Run e (debug a) a = (ev, Returned rc)"
    by (cases "Run e (debug a) a"; cases "snd (Run e (debug a) a)") auto
  with p show "Main e argv =
      (if open_result e (serial a)
       then (out @ fst (Init e (debug a) a) @ fst (Run e (debug a) a) @ Done (debug a),
             snd (Run e (debug a) a), a, debug a)
       else (out @ fst (Init e (debug a) a), Returned (- 1), a, debug a))"
    by (simp add: Main_def Let_def Init_def emit_def)
qed

lemma open_succeeded_device_calls:
  "open_succeeded e tr = open_succeeded e (device_calls tr)"
  by (induction tr) (auto simp: open_succeeded_def device_calls_def split: event.splits)

lemma count_Close_device_calls:
  "count_list tr DevClose = count_list (device_calls tr) DevClose"
  by (induction tr) (auto simp: device_calls_def)

lemma Close_in_device_calls:
  "DevClose \<in> set tr \<longleftrightarrow> DevClose \<in> set (device_calls tr)"
  by (auto simp: device_calls_def)

lemma device_calls_append [simp]:
  "device_calls (xs @ ys) = device_calls xs @ device_calls ys"
  by (simp add: device_calls_def)

lemma mode_calls_device_calls:
  "filter is_mode_call tr = filter is_mode_call (device_calls tr)"
proof -
  have "is_mode_call ev \<Longrightarrow> is_device ev" for ev by (cases ev) auto
  then show ?thesis by (induction tr) (auto simp: device_calls_def)
qed

lemma Main_device_calls:
  assumes "ParseArguments (posixly_correct e) Program argv = (out, Returned 0, a)"
  shows "device_calls (fst (main e argv)) =
     (if open_result e (serial a)
      then DevOpen (serial a) # filter is_mode_call (fst (Run e (debug a) a)) @ [DevClose]
      else [DevOpen (serial a)])"
proof -
  from ParseArguments_no_device [of "posixly_correct e" Program argv] assms
  have out: "device_calls out = []" by simp
  from Run_status [OF Main_unfold(1) [OF assms], of e "debug a"]
  obtain rc where rc: "snd (Run e (debug a) a) = Returned rc"
    by (cases "snd (Run e (debug a) a)") auto
  have init: "device_calls (fst (Init e (debug a) a)) = [DevOpen (serial a)]"
    by (auto simp: Init_def emit_def device_calls_def split: option.splits)
  have dn: "device_calls (Done (debug a)) = [DevClose]"
    by (simp add: Done_def device_calls_def)
  show ?thesis
    unfolding main_def Main_unfold(2) [OF assms]
    by (simp add: rc out init dn Run_device_calls) (simp add: device_calls_def)
qed

lemma Main_device_calls_failed:
  assumes "ParseArguments (posixly_correct e) Program argv = (out, st, a)"
    and "st \<noteq> Returned 0"
  shows "device_calls (fst (main e argv)) = []" and "snd (main e argv) = st"
proof -
  from ParseArguments_no_device [of "posixly_correct e" Program argv] assms
  have out: "device_calls out = []" by simp
  from ParseArguments_items [of Program "posixly_correct e" argv] assms
  have it: "items a = None" by (simp add: Program_def)
  from assms out it show "device_calls (fst (main e argv)) = []"
    by (cases st) (auto simp: main_def Main_def)
  from assms show "snd (main e argv) = st"
    by (cases st) (auto simp: main_def Main_def)
qed

lemma Main_receive:
  assumes "ParseArguments (posixly_correct e) Program argv = (out, Returned 0, a)"
    and "\<not> monitor a" and "\<not> list a" and "items a = Some ts"
    and "open_result e (serial a)"
  shows "device_calls (fst (main e argv)) =
           DevOpen (serial a)
           # map (\<lambda>t. DevReceiveRecord (atoi t)) (take (started e (length ts)) ts)
           @ [DevClose]"
    and "snd (main e argv) = Returned 0"
proof -
  from Main_unfold(1) [OF assms(1)] assms(4)
  have ic: "0 < item_count a" "item_count a = int (length ts)"
    by (auto simp: items_ok_def)
  have f: "filter is_mode_call (map (\<lambda>t. DevReceiveRecord (atoi t)) xs)
             = map (\<lambda>t. DevReceiveRecord (atoi t)) xs" for xs
    by (induction xs) auto
  from assms ic show "device_calls (fst (main e argv)) =
           DevOpen (serial a)
           # map (\<lambda>t. DevReceiveRecord (atoi t)) (take (started e (length ts)) ts)
           @ [DevClose]"
    unfolding Main_device_calls [OF assms(1)]
    by (simp add: Run_def emit_def receive_loop_eq [OF assms(4) ic(2)] started_def f)
  from assms ic show "snd (main e argv) = Returned 0"
    unfolding main_def Main_unfold(2) [OF assms(1)]
    by (simp add: Run_def emit_def receive_loop_eq [OF assms(4) ic(2)])
qed

section \<open>The claims of the specification\<close>

subsection \<open>Help requests (C1)\<close>

text \<open>
  Claim C1, amended. For every argument vector in whose scan \<^verbatim>\<open>getopt_long\<close> reports
  a help option, whatever else it holds, \<^verbatim>\<open>Device::Open\<close> is never called, and the
  first help, version or rejected option of the scan decides the exit status: 1 for
  help, 2 for version, \<^verbatim>\<open>-1\<close> for a rejected option. So the status is 1 when no
  version option and no rejected option is reported before the first help option.
\<close>

theorem help_option_stops_before_Open:
  assumes "CHR ''h'' \<in> fst ` set (scan_argv (posixly_correct e) argv)"
  shows "(\<forall>s. DevOpen s \<notin> set (fst (main e argv)))
    \<and> (\<exists>co. find returning (scan_argv (posixly_correct e) argv) = Some co
              \<and> snd (main e argv) = status_of_option (fst co))
    \<and> (list_all (\<lambda>co. \<not> returning co)
          (takeWhile (\<lambda>co. fst co \<noteq> CHR ''h'') (scan_argv (posixly_correct e) argv))
        \<longrightarrow> snd (main e argv) = Returned 1)"
proof -
  obtain out st a where p: "ParseArguments (posixly_correct e) Program argv = (out, st, a)"
    by (cases "ParseArguments (posixly_correct e) Program argv") auto
  from find_first_help [OF assms] obtain co
    where co: "find returning (scan_argv (posixly_correct e) argv) = Some co"
    by blast
  from ParseArguments_scan [OF co, of Program] p have st: "st = status_of_option (fst co)"
    by simp
  then have ne: "st \<noteq> Returned 0"
    by (auto simp: status_of_option_def)
  note m = Main_device_calls_failed [OF p ne]
  have "DevOpen s \<notin> set (fst (main e argv))" for s
  proof
    assume "DevOpen s \<in> set (fst (main e argv))"
    then have "DevOpen s \<in> set (device_calls (fst (main e argv)))"
      by (simp add: device_calls_def)
    with m(1) show False by simp
  qed
  moreover from m(2) st co
  have "\<exists>co. find returning (scan_argv (posixly_correct e) argv) = Some co
          \<and> snd (main e argv) = status_of_option (fst co)"
    by simp
  moreover have "snd (main e argv) = Returned 1"
    if "list_all (\<lambda>co. \<not> returning co)
          (takeWhile (\<lambda>co. fst co \<noteq> CHR ''h'') (scan_argv (posixly_correct e) argv))"
  proof -
    from find_first_help [OF assms] that co obtain oa where "co = (CHR ''h'', oa)" by auto
    with st m(2) show ?thesis by (simp add: status_of_option_def)
  qed
  ultimately show ?thesis by blast
qed

theorem help_option_stops_before_Open_witness:
  "snd (main env_ok [''ut181a'', ''-m'', ''7'', ''-d9'', ''--bogus'', ''-lh'']) = Returned (- 1)
   \<and> snd (main env_ok [''ut181a'', ''-m'', ''7'', ''-d9'', ''-lh'', ''-v'', ''--bogus'']) = Returned 1
   \<and> (\<forall>s. DevOpen s \<notin> set (fst (main env_ok [''ut181a'', ''-m'', ''7'', ''-d9'', ''-lh'', ''-v'', ''--bogus''])))"
proof -
  have a: "CHR ''h'' \<in> fst ` set (scan_argv (posixly_correct env_ok)
             [''ut181a'', ''-m'', ''7'', ''-d9'', ''-lh'', ''-v'', ''--bogus''])"
    by code_simp
  have b: "list_all (\<lambda>co. \<not> returning co)
          (takeWhile (\<lambda>co. fst co \<noteq> CHR ''h'') (scan_argv (posixly_correct env_ok)
             [''ut181a'', ''-m'', ''7'', ''-d9'', ''-lh'', ''-v'', ''--bogus'']))"
    by code_simp
  have c: "snd (main env_ok [''ut181a'', ''-m'', ''7'', ''-d9'', ''--bogus'', ''-lh'']) = Returned (- 1)"
    by code_simp
  from help_option_stops_before_Open [OF a] b c show ?thesis by blast
qed

text \<open>
  Against claim C1 as stated: with \<^verbatim>\<open>-v\<close> before \<^verbatim>\<open>-h\<close> the status is 2, with an
  unknown flag before \<^verbatim>\<open>--help\<close> it is \<^verbatim>\<open>-1\<close>, and a \<^verbatim>\<open>-h\<close> that follows \<^verbatim>\<open>-s\<close> is the
  serial string, so that the device is opened and Monitor mode runs.
\<close>

theorem help_anywhere_counterexample:
  "main env_ok [''ut181a'', ''-v'', ''-h''] = ([Stdout (version_info @ ''\<newline>'')], Returned 2)
   \<and> main env_ok [''ut181a'', ''--bogus'', ''--help'']
       = ([GetoptError (UnrecognizedOption ''bogus''), Stdout help_msg], Returned (- 1))
   \<and> main env_ok [''ut181a'', ''-m'', ''-s'', ''-h'']
       = ([SignalInstall, DevOpen (Some ''-h''), Stderr ''Ctrl-C to quit the monitor\<newline>'',
           DevMonitor, DevClose], Returned 0)"
  by code_simp

subsection \<open>The download loop and the quit flag (C2)\<close>

text \<open>
  Claim C2. In Receive mode the targets \<open>ts\<close> are positional arguments of \<^verbatim>\<open>argv\<close> in
  their order there, and the Device calls of the run are \<^verbatim>\<open>Open\<close>, then
  \<^verbatim>\<open>ReceiveRecord(atoi(t))\<close> for the targets \<open>t\<close> in order up to the first one at whose
  turn \<^verbatim>\<open>quit_flag\<close> reads non-zero, then \<^verbatim>\<open>Close\<close>: every target before that one was
  started with the flag reading 0 and is handed over, whatever the flag becomes later,
  and no target from that one on is handed over.
\<close>

theorem receive_in_order_until_quit:
  assumes "ParseArguments (posixly_correct e) Program argv = (out, Returned 0, a)"
    and "\<not> monitor a" and "\<not> list a" and "items a = Some ts"
    and "open_result e (serial a)"
  shows "subseq ts (tl argv)
    \<and> device_calls (fst (main e argv)) =
         DevOpen (serial a)
         # map (\<lambda>t. DevReceiveRecord (atoi t)) (take (started e (length ts)) ts)
         @ [DevClose]
    \<and> (\<forall>i < started e (length ts). quit_flag_at e i = 0)
    \<and> (started e (length ts) < length ts \<longrightarrow> quit_flag_at e (started e (length ts)) \<noteq> 0)"
  using ParseArguments_targets [OF assms(1,4)] Main_receive(1) [OF assms]
    started_reads_zero [of _ e "length ts"] started_stops [of e "length ts"]
  by blast

theorem receive_in_order_until_quit_witness:
  "device_calls (fst (main env_sigint [''ut181a'', ''1'', ''2'', ''3''])) =
     [DevOpen None, DevReceiveRecord 1, DevReceiveRecord 2, DevClose]
   \<and> quit_flag_at env_sigint 2 \<noteq> 0"
proof -
  have p: "ParseArguments (posixly_correct env_sigint) Program [''ut181a'', ''1'', ''2'', ''3'']
             = ([], Returned 0, Program\<lparr>item_count := 3, items := Some [''1'', ''2'', ''3'']\<rparr>)"
    by code_simp
  have m: "\<not> monitor (Program\<lparr>item_count := 3, items := Some [''1'', ''2'', ''3'']\<rparr>)"
    "\<not> list (Program\<lparr>item_count := 3, items := Some [''1'', ''2'', ''3'']\<rparr>)"
    "items (Program\<lparr>item_count := 3, items := Some [''1'', ''2'', ''3'']\<rparr>) = Some [''1'', ''2'', ''3'']"
    "open_result env_sigint (serial (Program\<lparr>item_count := 3, items := Some [''1'', ''2'', ''3'']\<rparr>))"
    by (simp_all add: Program_def env_sigint_def env_ok_def)
  have s: "started env_sigint (length [''1'', ''2'', ''3'']) = 2"
    by code_simp
  have a: "map (\<lambda>t. DevReceiveRecord (atoi t)) (take 2 [''1'', ''2'', ''3''])
             = [DevReceiveRecord 1, DevReceiveRecord 2]"
    by code_simp
  from receive_in_order_until_quit [OF p m] s a show ?thesis
    by (simp add: Program_def)
qed

subsection \<open>Precedence of the modes (C3)\<close>

text \<open>
  Claim C3. The mode that \<^verbatim>\<open>Run\<close> enters follows a fixed precedence, for every value
  of \<^verbatim>\<open>m_args\<close> and every debug level. With \<^verbatim>\<open>monitor\<close> set it is Monitor, whatever
  \<^verbatim>\<open>list\<close> and the targets are: \<^verbatim>\<open>Monitor\<close> is called, once, and it is the only call a
  mode body makes. Otherwise, with \<^verbatim>\<open>list\<close> set, it is List, whatever the targets are:
  \<^verbatim>\<open>ListRecord\<close> is called, once, and nothing else. Receive is entered exactly when both
  flags are clear and there is at least one target: the calls are then those of the
  download loop, which are \<^verbatim>\<open>ReceiveRecord(atoi(t))\<close> for the targets up to the first one
  at whose turn \<^verbatim>\<open>quit_flag\<close> reads non-zero. Otherwise no mode body runs and no such
  call is made. The banner each mode writes to the error stream agrees with its calls.
\<close>

theorem Run_mode_precedence:
  "modes_run (fst (Run e g a)) =
     (if monitor a then {MonitorMode}
      else if list a then {ListMode}
      else if 0 < item_count a then {ReceiveMode}
      else {})
   \<and> filter is_mode_call (fst (Run e g a)) =
     (if monitor a then [DevMonitor]
      else if list a then [DevListRecord]
      else if 0 < item_count a then fst (receive_loop e a 0)
      else [])
   \<and> (items a = Some ts \<and> item_count a = int (length ts) \<longrightarrow>
        fst (receive_loop e a 0) =
          map (\<lambda>t. DevReceiveRecord (atoi t)) (take (started e (length ts)) ts))"
proof -
  have "filter is_mode_call (fst (receive_loop e a 0)) = fst (receive_loop e a 0)"
    using receive_loop_events [of e a 0] by (auto simp: filter_id_conv)
  then have "filter is_mode_call (fst (Run e g a)) =
     (if monitor a then [DevMonitor]
      else if list a then [DevListRecord]
      else if 0 < item_count a then fst (receive_loop e a 0)
      else [])"
    by (simp add: Run_def emit_def Help_def)
  moreover have "modes_run (fst (Run e g a)) =
     (if monitor a then {MonitorMode}
      else if list a then {ListMode}
      else if 0 < item_count a then {ReceiveMode}
      else {})"
    using receive_loop_modes [of e a 0]
    by (auto simp: Run_def modes_run_def emit_def Help_def)
  moreover have "fst (receive_loop e a 0) =
          map (\<lambda>t. DevReceiveRecord (atoi t)) (take (started e (length ts)) ts)"
    if "items a = Some ts" "item_count a = int (length ts)"
    using receive_loop_eq [OF that, of e 0] by (simp add: started_def)
  ultimately show ?thesis by blast
qed

text \<open>
  The example of the specification, both flags set and the target \<^verbatim>\<open>3\<close>, calls
  \<^verbatim>\<open>Monitor\<close> only; with \<^verbatim>\<open>list\<close> alone set beside the target, \<^verbatim>\<open>ListRecord\<close> only; with
  the target alone, \<^verbatim>\<open>ReceiveRecord(3)\<close>.
\<close>

theorem Run_mode_precedence_witness:
  "filter is_mode_call (fst (Run env_ok 0
      (Program\<lparr>list := True, monitor := True, item_count := 1, items := Some [''3'']\<rparr>)))
     = [DevMonitor]
   \<and> modes_run (fst (Run env_ok 0
      (Program\<lparr>list := True, monitor := True, item_count := 1, items := Some [''3'']\<rparr>)))
     = {MonitorMode}
   \<and> filter is_mode_call (fst (Run env_ok 0
      (Program\<lparr>list := True, item_count := 1, items := Some [''3'']\<rparr>)))
     = [DevListRecord]
   \<and> filter is_mode_call (fst (Run env_ok 0
      (Program\<lparr>item_count := 1, items := Some [''3'']\<rparr>)))
     = [DevReceiveRecord 3]"
proof -
  let ?r = "Program\<lparr>item_count := 1, items := Some [''3'']\<rparr>"
  have h: "items ?r = Some [''3''] \<and> item_count ?r = int (length [''3''])"
    by simp
  have s: "started env_ok (length [''3'']) = 1" by code_simp
  have v: "atoi ''3'' = 3" by code_simp
  from Run_mode_precedence
    [of env_ok 0 "Program\<lparr>list := True, monitor := True, item_count := 1, items := Some [''3'']\<rparr>"]
    Run_mode_precedence
    [of env_ok 0 "Program\<lparr>list := True, item_count := 1, items := Some [''3'']\<rparr>"]
    Run_mode_precedence [of env_ok 0 ?r "[''3'']"] h s v
  show ?thesis by (simp add: Program_def)
qed

subsection \<open>The idle case (C4)\<close>

text \<open>
  Claim C4, amended. With no mode flag and no target, and a device that opens: at
  debug level 0 (or below) the program does what \<^verbatim>\<open>Help\<close> does after the parser's
  output, printing the help text, and returns 1; at a debug level above 0 it returns
  0, and below level 9 it writes nothing beyond what the parser wrote; the parser
  writes nothing when every level given with \<^verbatim>\<open>-d\<close> is below 9.
\<close>

theorem idle_status_and_output:
  assumes "ParseArguments (posixly_correct e) Program argv = (out, Returned 0, a)"
    and "\<not> monitor a" and "\<not> list a" and "item_count a \<le> 0"
    and "open_result e (serial a)"
  shows "(debug a \<le> 0 \<longrightarrow>
            snd (main e argv) = Returned (snd Help)
            \<and> snd Help = 1
            \<and> outputs (fst (main e argv)) = outputs out @ fst Help)
       \<and> (0 < debug a \<longrightarrow>
            snd (main e argv) = Returned 0
            \<and> (debug a < 9 \<longrightarrow> outputs (fst (main e argv)) = outputs out))
       \<and> (levels_below_9 (scan_argv (posixly_correct e) argv) \<longrightarrow> out = [] \<and> debug a < 9)"
proof -
  from Main_unfold(1) [OF assms(1)] assms(4) have "items a = None"
    by (auto simp: items_ok_def split: option.splits)
  with assms(2-5) have
    "debug a \<le> 0 \<longrightarrow> snd (main e argv) = Returned (snd Help) \<and> snd Help = 1
        \<and> outputs (fst (main e argv)) = outputs out @ fst Help"
    "0 < debug a \<longrightarrow> snd (main e argv) = Returned 0
        \<and> (debug a < 9 \<longrightarrow> outputs (fst (main e argv)) = outputs out)"
    unfolding main_def Main_unfold(2) [OF assms(1)]
    by (auto simp: Init_def Run_def Done_def Help_def emit_def outputs_def)
  with ParseArguments_quiet [OF assms(1)] show ?thesis by blast
qed

theorem idle_status_and_output_witness:
  "main env_ok [''ut181a'', ''-d'', ''1''] = ([SignalInstall, DevOpen None, DevClose], Returned 0)
   \<and> outputs (fst (main env_ok [''ut181a'', ''-d'', ''1''])) = []
   \<and> snd (main env_ok [''ut181a'', ''-d'', ''0'']) = Returned 1
   \<and> outputs (fst (main env_ok [''ut181a'', ''-d'', ''0''])) = [Stdout help_msg]"
proof -
  have p: "ParseArguments (posixly_correct env_ok) Program [''ut181a'', ''-d'', ''1'']
             = ([], Returned 0, Program\<lparr>debug := 1\<rparr>)"
    by code_simp
  have q: "ParseArguments (posixly_correct env_ok) Program [''ut181a'', ''-d'', ''0'']
             = ([], Returned 0, Program\<lparr>debug := 0\<rparr>)"
    by code_simp
  have l: "levels_below_9 (scan_argv (posixly_correct env_ok) [''ut181a'', ''-d'', ''1''])"
    "levels_below_9 (scan_argv (posixly_correct env_ok) [''ut181a'', ''-d'', ''0''])"
    by code_simp+
  have m: "\<not> monitor (Program\<lparr>debug := d\<rparr>)" "\<not> list (Program\<lparr>debug := d\<rparr>)"
    "item_count (Program\<lparr>debug := d\<rparr>) \<le> 0"
    "open_result env_ok (serial (Program\<lparr>debug := d\<rparr>))" for d
    by (simp_all add: Program_def env_ok_def)
  have w: "main env_ok [''ut181a'', ''-d'', ''1''] = ([SignalInstall, DevOpen None, DevClose], Returned 0)"
    by code_simp
  from idle_status_and_output [OF p m] idle_status_and_output [OF q m] l w
  show ?thesis by (simp add: Help_def outputs_def)
qed

text \<open>
  Against claim C4 as stated: at debug level 9 the idle run returns 0 but prints five
  lines, and when the device does not open the idle run returns \<^verbatim>\<open>-1\<close>, not 1.
\<close>

theorem idle_debug_claim_counterexample:
  "main env_ok [''ut181a'', ''-d'', ''9''] =
     ([Stdout ''Option -d with value: 9\<newline>'', Stdout ''Positional argument count: 0\<newline>'',
       Stderr ''Program::Init\<newline>'', SignalInstall, DevOpen None,
       Stderr ''Program::Run\<newline>'', Stderr ''Program::Done\<newline>'', DevClose],
      Returned 0)
   \<and> snd (main env_no_device [''ut181a'']) = Returned (- 1)"
  by code_simp

subsection \<open>Closing the session (C5)\<close>

text \<open>
  Claim C5. In every run of the program, for every argument vector and environment:
  when \<^verbatim>\<open>Device::Open\<close> was called and succeeded, \<^verbatim>\<open>Device::Close\<close> is called exactly
  once, and the Device calls of the run are \<^verbatim>\<open>Open\<close>, then the calls of the mode body,
  then \<^verbatim>\<open>Close\<close>, also when \<^verbatim>\<open>Monitor\<close> reports a failure or the downloads are cut
  short by \<^verbatim>\<open>quit_flag\<close>; when \<^verbatim>\<open>Open\<close> failed or was not called, \<^verbatim>\<open>Close\<close> is not
  called.
\<close>

theorem Close_once_after_Open:
  "(open_succeeded e (fst (main e argv)) \<longrightarrow>
      count_list (fst (main e argv)) DevClose = 1
      \<and> (\<exists>s body. device_calls (fst (main e argv)) = DevOpen s # body @ [DevClose]
                    \<and> list_all is_mode_call body))
   \<and> (\<not> open_succeeded e (fst (main e argv)) \<longrightarrow> DevClose \<notin> set (fst (main e argv)))"
proof -
  obtain out st a where p: "ParseArguments (posixly_correct e) Program argv = (out, st, a)"
    by (cases "ParseArguments (posixly_correct e) Program argv") auto
  show ?thesis
  proof (cases "st = Returned 0")
    case False
    from Main_device_calls_failed(1) [OF p False] show ?thesis
      unfolding open_succeeded_device_calls [of e "fst (main e argv)"]
        Close_in_device_calls [of "fst (main e argv)"]
      by (simp add: open_succeeded_def)
  next
    case True
    with p have p0: "ParseArguments (posixly_correct e) Program argv = (out, Returned 0, a)"
      by simp
    have cnt: "count_list (filter is_mode_call xs) DevClose = 0" for xs
      by (induction xs) auto
    have ex: "\<not> list_ex (\<lambda>ev. case ev of DevOpen s \<Rightarrow> open_result e s | _ \<Rightarrow> False)
                 (filter is_mode_call xs)" for xs
      by (induction xs) (auto split: event.splits)
    have al: "list_all is_mode_call (filter is_mode_call xs)" for xs :: "event list"
      by (simp add: list_all_iff)
    show ?thesis
      unfolding open_succeeded_device_calls [of e "fst (main e argv)"]
        Close_in_device_calls [of "fst (main e argv)"]
        count_Close_device_calls [of "fst (main e argv)"]
        Main_device_calls [OF p0]
      using al by (auto simp: open_succeeded_def cnt ex)
  qed
qed

text \<open>
  \<^verbatim>\<open>ut181a -m\<close> with a \<^verbatim>\<open>Monitor\<close> that fails: one \<^verbatim>\<open>Close\<close>, status \<^verbatim>\<open>-1\<close>; and with
  a device that does not open: no \<^verbatim>\<open>Close\<close>.
\<close>

theorem Close_once_after_Open_witness:
  "count_list (fst (main env_monitor_fails [''ut181a'', ''-m''])) DevClose = 1
   \<and> snd (main env_monitor_fails [''ut181a'', ''-m'']) = Returned (- 1)
   \<and> DevClose \<notin> set (fst (main env_no_device [''ut181a'', ''-m'']))"
proof -
  have a: "open_succeeded env_monitor_fails (fst (main env_monitor_fails [''ut181a'', ''-m'']))"
    by code_simp
  have b: "\<not> open_succeeded env_no_device (fst (main env_no_device [''ut181a'', ''-m'']))"
    by code_simp
  have c: "snd (main env_monitor_fails [''ut181a'', ''-m'']) = Returned (- 1)"
    by code_simp
  from a b c Close_once_after_Open [of env_monitor_fails "[''ut181a'', ''-m'']"]
    Close_once_after_Open [of env_no_device "[''ut181a'', ''-m'']"]
  show ?thesis by blast
qed

subsection \<open>Failure to open the device (C6)\<close>

text \<open>
  Claim C6. When the arguments were parsed, a serial string \<open>s\<close> was given and
  \<^verbatim>\<open>Device::Open\<close> fails, the program returns \<^verbatim>\<open>-1\<close>, writes to the error stream the
  line that asks whether the serial string \<open>s\<close> is correct, and calls none of
  \<^verbatim>\<open>Monitor\<close>, \<^verbatim>\<open>ListRecord\<close> and \<^verbatim>\<open>ReceiveRecord\<close>.
\<close>

theorem open_failure_reported:
  assumes "ParseArguments (posixly_correct e) Program argv = (out, Returned 0, a)"
    and "serial a = Some s"
    and "\<not> open_result e (Some s)"
  shows "snd (main e argv) = Returned (- 1)
    \<and> Stderr (''Is the serial string '' @ [CHR 0x27] @ s @ [CHR 0x27] @ '' correct?\<newline>'')
        \<in> set (fst (main e argv))
    \<and> filter is_mode_call (fst (main e argv)) = []"
proof -
  from assms have "filter is_mode_call (fst (main e argv)) = []"
    unfolding mode_calls_device_calls [of "fst (main e argv)"] Main_device_calls [OF assms(1)]
    by simp
  moreover from assms have "snd (main e argv) = Returned (- 1)"
    unfolding main_def Main_unfold(2) [OF assms(1)] by simp
  moreover from assms
  have "Stderr (''Is the serial string '' @ [CHR 0x27] @ s @ [CHR 0x27] @ '' correct?\<newline>'')
        \<in> set (fst (main e argv))"
    unfolding main_def Main_unfold(2) [OF assms(1)] by (simp add: Init_def emit_def)
  ultimately show ?thesis by simp
qed

theorem open_failure_reported_witness:
  "snd (main env_no_device [''ut181a'', ''-s'', ''XYZ'', ''-m'']) = Returned (- 1)
   \<and> Stderr ''Is the serial string 'XYZ' correct?\<newline>''
        \<in> set (fst (main env_no_device [''ut181a'', ''-s'', ''XYZ'', ''-m'']))
   \<and> filter is_mode_call (fst (main env_no_device [''ut181a'', ''-s'', ''XYZ'', ''-m''])) = []"
proof -
  have p: "ParseArguments (posixly_correct env_no_device) Program [''ut181a'', ''-s'', ''XYZ'', ''-m'']
             = ([], Returned 0, Program\<lparr>monitor := True, serial := Some ''XYZ''\<rparr>)"
    by code_simp
  have s: "serial (Program\<lparr>monitor := True, serial := Some ''XYZ''\<rparr>) = Some ''XYZ''"
    by simp
  have f: "\<not> open_result env_no_device (Some ''XYZ'')"
    by (simp add: env_no_device_def)
  from open_failure_reported [OF p s f] show ?thesis by simp
qed

subsection \<open>Malformed targets (C7)\<close>

text \<open>
  Claim C7, amended. Whatever the target strings are, a Receive run that is not
  interrupted returns 0 and hands every target \<open>t\<close>, in order, to \<^verbatim>\<open>ReceiveRecord\<close> as
  \<^verbatim>\<open>atoi(t)\<close>; that value is 0 for every target that does not begin, after white space
  and one optional sign, with a decimal digit.
\<close>

theorem targets_resolved_by_atoi:
  assumes "ParseArguments (posixly_correct e) Program argv = (out, Returned 0, a)"
    and "\<not> monitor a" and "\<not> list a" and "items a = Some ts"
    and "open_result e (serial a)"
    and "\<forall>i < length ts. quit_flag_at e i = 0"
  shows "snd (main e argv) = Returned 0
    \<and> filter is_mode_call (fst (main e argv)) = map (\<lambda>t. DevReceiveRecord (atoi t)) ts
    \<and> (\<forall>t \<in> set ts. \<not> starts_with_number t \<longrightarrow> atoi t = 0)"
proof -
  from assms(6) have st: "started e (length ts) = length ts"
    by (intro started_all) simp
  have f: "filter is_mode_call (map (\<lambda>t. DevReceiveRecord (atoi t)) xs)
             = map (\<lambda>t. DevReceiveRecord (atoi t)) xs" for xs
    by (induction xs) auto
  have "filter is_mode_call (fst (main e argv)) = map (\<lambda>t. DevReceiveRecord (atoi t)) ts"
    unfolding mode_calls_device_calls [of "fst (main e argv)"]
      Main_receive(1) [OF assms(1-5)] st
    by (simp add: f)
  with Main_receive(2) [OF assms(1-5)] atoi_no_number show ?thesis by blast
qed

theorem targets_resolved_by_atoi_witness:
  "main env_ok [''ut181a'', ''abc'', ''7'', ''12abc''] =
     ([SignalInstall, DevOpen None, Stderr ''Ctrl-C to abort the long operation\<newline>'',
       DevReceiveRecord 0, DevReceiveRecord 7, DevReceiveRecord 12, DevClose], Returned 0)
   \<and> filter is_mode_call (fst (main env_ok [''ut181a'', ''abc'', ''7'', ''12abc''])) =
       map (\<lambda>t. DevReceiveRecord (atoi t)) [''abc'', ''7'', ''12abc'']
   \<and> atoi ''abc'' = 0"
proof -
  let ?a = "Program\<lparr>item_count := 3, items := Some [''abc'', ''7'', ''12abc'']\<rparr>"
  have p: "ParseArguments (posixly_correct env_ok) Program [''ut181a'', ''abc'', ''7'', ''12abc'']
             = ([], Returned 0, ?a)"
    by code_simp
  have m: "\<not> monitor ?a" "\<not> list ?a" "items ?a = Some [''abc'', ''7'', ''12abc'']"
    "open_result env_ok (serial ?a)"
    "\<forall>i < length [''abc'', ''7'', ''12abc'']. quit_flag_at env_ok i = 0"
    by (simp_all add: Program_def env_ok_def)
  have n: "\<not> starts_with_number ''abc''" by code_simp
  have w: "main env_ok [''ut181a'', ''abc'', ''7'', ''12abc''] =
     ([SignalInstall, DevOpen None, Stderr ''Ctrl-C to abort the long operation\<newline>'',
       DevReceiveRecord 0, DevReceiveRecord 7, DevReceiveRecord 12, DevClose], Returned 0)"
    by code_simp
  from targets_resolved_by_atoi [OF p m] n w show ?thesis by simp
qed

text \<open>
  Against claim C7 as stated: \<^verbatim>\<open>12abc\<close> is not a valid non-negative integer, and it
  is resolved to 12, not to 0.
\<close>

theorem malformed_target_counterexample:
  "main env_ok [''ut181a'', ''12abc''] =
     ([SignalInstall, DevOpen None, Stderr ''Ctrl-C to abort the long operation\<newline>'',
       DevReceiveRecord 12, DevClose], Returned 0)"
  by code_simp

subsection \<open>The long forms of the mode flags (C8)\<close>

text \<open>
  Claim C8 says that \<^verbatim>\<open>--monitor\<close> without an argument selects Monitor mode as
  \<^verbatim>\<open>-m\<close> does. The table \<^verbatim>\<open>long_options\<close> gives \<^verbatim>\<open>monitor\<close> (and \<^verbatim>\<open>list\<close>) a required
  argument, against the help text and the short options: on \<^verbatim>\<open>ut181a --monitor\<close>
  \<^verbatim>\<open>getopt_long\<close> reports the missing argument, the program prints the help text
  and returns \<^verbatim>\<open>-1\<close>, and no device is opened.
\<close>

theorem long_monitor_needs_argument:
  "main e [''ut181a'', ''--monitor''] =
     ([GetoptError (LongMissingArgument ''monitor''), Stdout help_msg], Returned (- 1))"
  by (simp add: main_def Main_def ParseArguments_def getopt_loop.simps getopt_long_def
        next_element_def NONOPTION_P_def process_long_option_def find_long_def
        long_options_def emit_def Help_def Program_def)

subsection \<open>What follows a help or version request (C9)\<close>

text \<open>
  Claim C9. When \<^verbatim>\<open>ParseArguments\<close> returns at a help or version option (with 1 or
  2) on an argument vector, it returns the same, with the same output and the same
  \<^verbatim>\<open>m_args\<close>, on that vector followed by any further arguments: they are not looked
  at. The program then exits with that status, no further argument has become a
  target (\<^verbatim>\<open>items\<close> is still NULL), and \<^verbatim>\<open>getopt_long\<close> has reported no error.
\<close>

theorem help_version_ignore_the_rest:
  assumes "fst (snd (ParseArguments (posixly_correct e) Program pre)) \<in> {Returned 1, Returned 2}"
  shows "ParseArguments (posixly_correct e) Program (pre @ later)
           = ParseArguments (posixly_correct e) Program pre
    \<and> main e (pre @ later) = main e pre
    \<and> snd (main e (pre @ later)) = fst (snd (ParseArguments (posixly_correct e) Program pre))
    \<and> items (snd (snd (ParseArguments (posixly_correct e) Program (pre @ later)))) = None
    \<and> (\<forall>g. GetoptError g \<notin> set (fst (main e (pre @ later))))"
proof -
  note eq = ParseArguments_extend(1) [OF assms, of later]
  obtain out st a where p: "ParseArguments (posixly_correct e) Program pre = (out, st, a)"
    by (cases "ParseArguments (posixly_correct e) Program pre") auto
  with assms have st: "st = Returned 1 \<or> st = Returned 2" by simp
  from ParseArguments_items [of Program "posixly_correct e" pre] p st
  have it: "items a = None" by (auto simp: Program_def)
  from p st it have m: "main e pre = (out, st)"
    by (auto simp: main_def Main_def)
  have "main e (pre @ later) = main e pre"
    by (simp add: main_def Main_def eq)
  with m p it eq ParseArguments_extend(2) [OF assms] show ?thesis by simp
qed

text \<open>A version request followed by an unknown flag, a target and a flag without its argument.\<close>

theorem help_version_ignore_the_rest_witness:
  "main env_ok [''ut181a'', ''-v'', ''--bogus'', ''7'', ''-d'']
     = ([Stdout (version_info @ ''\<newline>'')], Returned 2)"
proof -
  have "fst (snd (ParseArguments (posixly_correct env_ok) Program [''ut181a'', ''-v'']))
          \<in> {Returned 1, Returned 2}"
    by code_simp
  from help_version_ignore_the_rest [OF this, of "[''--bogus'', ''7'', ''-d'']"]
  have "main env_ok ([''ut181a'', ''-v''] @ [''--bogus'', ''7'', ''-d''])
          = main env_ok [''ut181a'', ''-v'']"
    by simp
  moreover have "main env_ok [''ut181a'', ''-v''] = ([Stdout (version_info @ ''\<newline>'')], Returned 2)"
    by code_simp
  ultimately show ?thesis by simp
qed

subsection \<open>The session in the idle case (C10)\<close>

text \<open>
  Claim C10. With no mode flag and no target, the program still opens the device
  before anything else: when \<^verbatim>\<open>Open\<close> succeeds, the run is the parser's output, the
  call of \<^verbatim>\<open>Open\<close>, then the help text (at debug level 0 or below) or nothing, then
  \<^verbatim>\<open>Close\<close>, with status 1 or 0; when \<^verbatim>\<open>Open\<close> fails, the run ends with the failure
  messages and status \<^verbatim>\<open>-1\<close>, and the help text is not printed.
\<close>

theorem idle_opens_session:
  assumes "ParseArguments (posixly_correct e) Program argv = (out, Returned 0, a)"
    and "\<not> monitor a" and "\<not> list a" and "item_count a \<le> 0"
  shows "main e argv =
     (if open_result e (serial a) then
        (out @ (if 9 \<le> debug a then [Stderr ''Program::Init\<newline>''] else [])
             @ [SignalInstall, DevOpen (serial a)]
             @ (if 9 \<le> debug a then [Stderr ''Program::Run\<newline>''] else [])
             @ (if 0 < debug a then [] else [Stdout help_msg])
             @ (if 9 \<le> debug a then [Stderr ''Program::Done\<newline>''] else [])
             @ [DevClose],
         Returned (if 0 < debug a then 0 else 1))
      else
        (out @ (if 9 \<le> debug a then [Stderr ''Program::Init\<newline>''] else [])
             @ [SignalInstall, DevOpen (serial a),
                Stderr ''Failed to open UT181A DMM. Please check device connection or settings.\<newline>'']
             @ (case serial a of
                  Some s \<Rightarrow> [Stderr (''Is the serial string '' @ [CHR 0x27] @ s @ [CHR 0x27]
                                      @ '' correct?\<newline>'')]
                | None \<Rightarrow> []),
         Returned (- 1)))"
proof -
  from Main_unfold(1) [OF assms(1)] assms(4) have "items a = None"
    by (auto simp: items_ok_def split: option.splits)
  with assms(2-4) show ?thesis
    unfolding main_def Main_unfold(2) [OF assms(1)]
    by (auto simp: Init_def Run_def Done_def Help_def emit_def)
qed

theorem idle_opens_session_witness:
  "main env_no_device [''ut181a''] =
     ([SignalInstall, DevOpen None,
       Stderr ''Failed to open UT181A DMM. Please check device connection or settings.\<newline>''],
      Returned (- 1))
   \<and> main env_ok [''ut181a''] =
     ([SignalInstall, DevOpen None, Stdout help_msg, DevClose], Returned 1)"
proof -
  have p: "ParseArguments (posixly_correct env_no_device) Program [''ut181a'']
             = ([], Returned 0, Program)"
    by code_simp
  have q: "ParseArguments (posixly_correct env_ok) Program [''ut181a'']
             = ([], Returned 0, Program)"
    by code_simp
  have m: "\<not> monitor Program" "\<not> list Program" "item_count Program \<le> 0"
    by (simp_all add: Program_def)
  from idle_opens_session [OF p m] idle_opens_session [OF q m] show ?thesis
    by (simp add: env_no_device_def env_ok_def Program_def)
qed

end
